theory Spec2Isabelle
  imports Main "HOL-Library.Multiset"
begin

section \<open>Data model\<close>

text \<open>
  The embedding follows \<^verbatim>\<open>src/core/api/track_management/track_dispatcher.ts\<close>.
  Objects that the class shares with its callers live in explicit stores of the
  record \<open>world\<close>; the methods of \<^verbatim>\<open>TrackDispatcher\<close> are functions from a world to a
  world. A result \<open>None\<close> stands for a call that does not return (a listener that keeps
  re-entering the dispatcher).
\<close>

text \<open>A JavaScript value that may also be \<^verbatim>\<open>undefined\<close> or \<^verbatim>\<open>null\<close>.\<close>

datatype 'a nullable = Undefined | Null | Val 'a

text \<open>
  A \<^verbatim>\<open>Representation\<close>: the dispatcher reads its \<^verbatim>\<open>id\<close> and its \<^verbatim>\<open>bitrate\<close> (an integer
  here) and calls \<^verbatim>\<open>isPlayable()\<close>, which is a field of the world since it changes with
  the manifest.
\<close>

record representation =
  rep_id :: string
  bitrate :: int

text \<open>\<^verbatim>\<open>IRepresentationsChoice\<close>.\<close>

record representations_choice =
  rc_representations :: "representation list"
  rc_switchingMode :: string

text \<open>
  \<^verbatim>\<open>ITrackSetting\<close>. The \<^verbatim>\<open>Adaptation\<close> and the shared reference of the locked
  Representations are objects owned by the caller: the record holds their addresses.
\<close>

record track_setting =
  ts_adaptation :: nat
  ts_switchingMode :: string
  ts_relativeResumingPosition :: "int option"
  ts_lockedRepresentations :: nat

text \<open>The value sent through \<^verbatim>\<open>_adaptationRef\<close>; \<open>ac_representations\<close> is the address
  of the sub-channel built by \<^verbatim>\<open>_constructLockedRepresentationsReference\<close>.\<close>

record adaptation_choice =
  ac_adaptation :: nat
  ac_switchingMode :: string
  ac_representations :: nat
  ac_relativeResumingPosition :: "int option"

text \<open>\<^verbatim>\<open>_lastEmitted\<close>.\<close>

record last_emitted =
  le_adaptation :: nat
  le_switchingMode :: string
  le_lockedRepresentations :: "representation list option"

text \<open>
  The closure \<^verbatim>\<open>updateReferenceIfNeeded\<close> of one call of
  \<^verbatim>\<open>_constructLockedRepresentationsReference\<close>: it captures \<^verbatim>\<open>trackInfo\<close> and
  \<^verbatim>\<open>reference\<close>. Two calls build two closures, told apart by the reference.
\<close>

record closure =
  cl_trackInfo :: track_setting
  cl_reference :: nat

datatype event = NoPlayableLockedRepresentation | NoPlayableRepresentation

datatype manifest_event = DecipherabilityUpdate | ManifestUpdate

text \<open>
  What is registered on a cancellation signal: the function \<^verbatim>\<open>removeListeners\<close> of a
  closure, or the removal of a closure's subscription to a locked-Representations
  reference (its \<^verbatim>\<open>clearSignal\<close>).
\<close>

datatype cleanup = RemoveListeners closure | Unlisten nat closure

record task_canceller =
  tc_isCancelled :: bool
  tc_cleanups :: "cleanup list"

text \<open>
  A shared reference that the dispatcher writes: its value, whether it is finished, and
  the values \<^verbatim>\<open>setValue\<close> has published on it, oldest first. The subscribers of these
  two channels are consumers outside the dispatcher and are not part of the model.
\<close>

record 'a shared_reference =
  sr_value :: 'a
  sr_finished :: bool
  sr_published :: "'a list"

text \<open>
  A shared reference that the dispatcher reads (\<^verbatim>\<open>trackInfo.lockedRepresentations\<close>): its
  value and the closures subscribed with \<^verbatim>\<open>onUpdate\<close>, in subscription order. Its
  owner never finishes it in this model.
\<close>

record lock_reference =
  lr_value :: "representations_choice option"
  lr_subscribers :: "closure list"

text \<open>
  What a listener does when it is called: a sequence of calls, on the same
  dispatcher or on the objects it listens to.
\<close>

datatype api_call =
    CallStart "track_setting option"
  | CallUpdateTrack "track_setting option"
  | CallDispose
  | CallLockSetValue nat "representations_choice option"
  | CallManifestTrigger manifest_event

record world =
  adaptationRef :: "adaptation_choice nullable shared_reference"
  lastEmitted :: "last_emitted nullable"
  canceller :: task_canceller
  updateToken :: bool
  listeners :: "(event \<times> api_call list) list"
  emitted :: "event list"
  manifestListeners :: "(manifest_event \<times> closure) list"
  references :: "nat \<Rightarrow> representations_choice shared_reference"
  nextReference :: nat
  lockedRefs :: "nat \<Rightarrow> lock_reference"
  isSupported :: "nat \<Rightarrow> bool"
  isPlayable :: "representation \<Rightarrow> bool"
  getPlayableRepresentations :: "nat \<Rightarrow> representation list"

text \<open>
  \<open>listeners\<close> is the registry of the dispatcher's own \<^verbatim>\<open>EventEmitter\<close> and
  \<open>emitted\<close> the events it has sent, oldest first. \<open>manifestListeners\<close> is the
  registry of the \<^verbatim>\<open>Manifest\<close>. \<open>references\<close> is the store of the sub-channels the
  dispatcher has built, \<open>nextReference\<close> the next free address in it.
  \<open>isSupported\<close> holds the flag of each \<^verbatim>\<open>Adaptation\<close>; \<open>isPlayable\<close> and
  \<open>getPlayableRepresentations\<close> are what the methods of these names return at present.
\<close>

type_synonym trigger_fn = "event \<Rightarrow> world \<Rightarrow> world option"

section \<open>The collaborators\<close>

text \<open>
  Modelled from the spec: the class \<^verbatim>\<open>SharedReference\<close> (utils/reference) is not among
  the sources. \<^verbatim>\<open>setValue\<close> on a finished channel does nothing; otherwise it replaces the
  value. \<^verbatim>\<open>finish\<close> marks the channel finished for ever.
\<close>

definition sr_setValue :: "'a \<Rightarrow> 'a shared_reference \<Rightarrow> 'a shared_reference" where
  "sr_setValue v r =
     (if sr_finished r then r
      else r\<lparr>sr_value := v, sr_published := sr_published r @ [v]\<rparr>)"

definition sr_finish :: "'a shared_reference \<Rightarrow> 'a shared_reference" where
  "sr_finish r = r\<lparr>sr_finished := True\<rparr>"

definition new_reference :: "'a \<Rightarrow> 'a shared_reference" where
  "new_reference v = \<lparr>sr_value = v, sr_finished = False, sr_published = []\<rparr>"

text \<open>
  Modelled from the spec: the \<^verbatim>\<open>EventEmitter\<close> of the \<^verbatim>\<open>Manifest\<close> is not among the
  sources. \<^verbatim>\<open>addEventListener\<close> appends to the registry, \<^verbatim>\<open>removeEventListener\<close> takes
  the listener out of it.
\<close>

definition manifest_addEventListener :: "manifest_event \<Rightarrow> closure \<Rightarrow> world \<Rightarrow> world" where
  "manifest_addEventListener ev f s = s\<lparr>manifestListeners := manifestListeners s @ [(ev, f)]\<rparr>"

definition manifest_removeEventListener :: "manifest_event \<Rightarrow> closure \<Rightarrow> world \<Rightarrow> world" where
  "manifest_removeEventListener ev f s =
     s\<lparr>manifestListeners := remove1 (ev, f) (manifestListeners s)\<rparr>"

text \<open>The function \<^verbatim>\<open>removeListeners\<close> of the source (lines 231 to 234).\<close>

definition removeListeners :: "closure \<Rightarrow> world \<Rightarrow> world" where
  "removeListeners f s =
     manifest_removeEventListener ManifestUpdate f
       (manifest_removeEventListener DecipherabilityUpdate f s)"

text \<open>Removing a subscription from a locked-Representations reference.\<close>

definition unlisten :: "nat \<Rightarrow> closure \<Rightarrow> world \<Rightarrow> world" where
  "unlisten l f s =
     s\<lparr>lockedRefs := (lockedRefs s)
          (l := (lockedRefs s l)\<lparr>lr_subscribers := remove1 f (lr_subscribers (lockedRefs s l))\<rparr>)\<rparr>"

fun run_cleanup :: "cleanup \<Rightarrow> world \<Rightarrow> world" where
  "run_cleanup (RemoveListeners f) s = removeListeners f s"
| "run_cleanup (Unlisten l f) s = unlisten l f s"

text \<open>
  Modelled from the spec: the class \<^verbatim>\<open>TaskCanceller\<close> is not among the sources.
  \<^verbatim>\<open>register\<close> on a cancelled signal runs the cleanup at once; \<^verbatim>\<open>cancel\<close> moves the
  signal to cancelled and runs every registered cleanup once, in registration order,
  then clears the registry. The dispatcher only ever uses its current canceller, which
  it cancels before it replaces it, so the canceller is a field and not a store.
\<close>

definition new_TaskCanceller :: task_canceller where
  "new_TaskCanceller = \<lparr>tc_isCancelled = False, tc_cleanups = []\<rparr>"

definition signal_register :: "cleanup \<Rightarrow> world \<Rightarrow> world" where
  "signal_register c s =
     (if tc_isCancelled (canceller s) then run_cleanup c s
      else s\<lparr>canceller := (canceller s)\<lparr>tc_cleanups := tc_cleanups (canceller s) @ [c]\<rparr>\<rparr>)"

definition canceller_cancel :: "world \<Rightarrow> world" where
  "canceller_cancel s =
     (if tc_isCancelled (canceller s) then s
      else fold run_cleanup (tc_cleanups (canceller s))
             (s\<lparr>canceller := \<lparr>tc_isCancelled = True, tc_cleanups = []\<rparr>\<rparr>))"

text \<open>
  \<^verbatim>\<open>trackInfo.lockedRepresentations.onUpdate(f, {clearSignal, emitCurrentValue: false})\<close>:
  the closure is subscribed, it is not called with the current value, and the removal
  of the subscription is registered on the signal.
\<close>

definition lock_onUpdate :: "nat \<Rightarrow> closure \<Rightarrow> world \<Rightarrow> world" where
  "lock_onUpdate l f s =
     signal_register (Unlisten l f)
       (s\<lparr>lockedRefs := (lockedRefs s)
            (l := (lockedRefs s l)\<lparr>lr_subscribers := lr_subscribers (lockedRefs s l) @ [f]\<rparr>)\<rparr>)"

section \<open>The sub-channel of the locked Representations\<close>

text \<open>
  The loop of lines 223 to 228: is there an index \<open>j \<ge> i\<close> below the length of
  \<open>sortedReps\<close> at which the two lists hold different ids. It is only called on lists of
  the same length.
\<close>

function idDiffersFrom :: "nat \<Rightarrow> representation list \<Rightarrow> representation list \<Rightarrow> bool" where
  "idDiffersFrom i oldReps sortedReps =
     (if i < length sortedReps
      then (if rep_id (oldReps ! i) \<noteq> rep_id (sortedReps ! i) then True
            else idDiffersFrom (Suc i) oldReps sortedReps)
      else False)"
  by pat_completeness auto
termination
  by (relation "measure (\<lambda>(i, oldReps, sortedReps). length sortedReps - i)") auto

declare idDiffersFrom.simps [simp del]

text \<open>
  The candidates of lines 195 to 203: every playable Representation of the Adaptation
  when nothing is locked, the playable ones among the locked ones otherwise.
\<close>

definition playableRepresentations :: "closure \<Rightarrow> world \<Rightarrow> representation list" where
  "playableRepresentations f s =
     (case lr_value (lockedRefs s (ts_lockedRepresentations (cl_trackInfo f))) of
        None \<Rightarrow> getPlayableRepresentations s (ts_adaptation (cl_trackInfo f))
      | Some repSettings \<Rightarrow> filter (isPlayable s) (rc_representations repSettings))"

text \<open>The switching mode of lines 199 and 202: \<^verbatim>\<open>"lazy"\<close> when nothing is locked, the
  mode of the lock otherwise.\<close>

definition switchingModeOf :: "closure \<Rightarrow> world \<Rightarrow> string" where
  "switchingModeOf f s =
     (case lr_value (lockedRefs s (ts_lockedRepresentations (cl_trackInfo f))) of
        None \<Rightarrow> ''lazy''
      | Some repSettings \<Rightarrow> rc_switchingMode repSettings)"

text \<open>\<^verbatim>\<open>reference.setValue\<close> on the sub-channel at an address.\<close>

definition reference_setValue :: "nat \<Rightarrow> representations_choice \<Rightarrow> world \<Rightarrow> world" where
  "reference_setValue r v s = s\<lparr>references := (references s)(r := sr_setValue v (references s r))\<rparr>"

text \<open>
  Lines 209 to 228, common to both branches. \<^verbatim>\<open>sort\<close> with the comparator
  \<^verbatim>\<open>ra.bitrate - rb.bitrate\<close> is the stable sort on the bitrate.
\<close>

definition publishIfChanged ::
  "trigger_fn \<Rightarrow> closure \<Rightarrow> representation list \<Rightarrow> string \<Rightarrow> world \<Rightarrow> world option" where
  "publishIfChanged trig f playable switchingMode s =
     (if length playable \<le> 0
      then trig NoPlayableRepresentation
             (s\<lparr>isSupported := (isSupported s)(ts_adaptation (cl_trackInfo f) := False)\<rparr>)
      else
        (let oldRef = sr_value (references s (cl_reference f));
             sortedReps = sort_key bitrate playable;
             newRef = \<lparr>rc_representations = sortedReps, rc_switchingMode = switchingMode\<rparr>
         in if length sortedReps \<noteq> length (rc_representations oldRef)
            then Some (reference_setValue (cl_reference f) newRef s)
            else if idDiffersFrom 0 (rc_representations oldRef) sortedReps
            then Some (reference_setValue (cl_reference f) newRef s)
            else Some s))"

text \<open>
  \<^verbatim>\<open>updateReferenceIfNeeded\<close> (lines 186 to 229). \<open>trig\<close> is \<^verbatim>\<open>self.trigger\<close>: it calls
  the listeners of the dispatcher, which may call the dispatcher again.
\<close>

definition updateReferenceIfNeeded :: "trigger_fn \<Rightarrow> closure \<Rightarrow> world \<Rightarrow> world option" where
  "updateReferenceIfNeeded trig f s =
     (case lr_value (lockedRefs s (ts_lockedRepresentations (cl_trackInfo f))) of
        None \<Rightarrow>
          publishIfChanged trig f
            (getPlayableRepresentations s (ts_adaptation (cl_trackInfo f))) ''lazy'' s
      | Some repSettings \<Rightarrow>
          (let playable = filter (isPlayable s) (rc_representations repSettings)
           in if length playable = 0
              then trig NoPlayableLockedRepresentation s
              else publishIfChanged trig f playable (rc_switchingMode repSettings) s))"

text \<open>
  \<^verbatim>\<open>_constructLockedRepresentationsReference\<close> (lines 162 to 184): returns the address
  of the new sub-channel.
\<close>

definition constructLockedRepresentationsReference ::
  "trigger_fn \<Rightarrow> track_setting \<Rightarrow> world \<Rightarrow> (nat \<times> world) option" where
  "constructLockedRepresentationsReference trig trackInfo s =
     (let reference = nextReference s;
          s1 = s\<lparr>references := (references s)
                    (reference := new_reference
                       \<lparr>rc_representations = [], rc_switchingMode = ''lazy''\<rparr>),
                 nextReference := Suc reference\<rparr>;
          f = \<lparr>cl_trackInfo = trackInfo, cl_reference = reference\<rparr>;
          s2 = manifest_addEventListener DecipherabilityUpdate f s1;
          s3 = manifest_addEventListener ManifestUpdate f s2;
          s4 = signal_register (RemoveListeners f) s3;
          s5 = lock_onUpdate (ts_lockedRepresentations trackInfo) f s4
      in map_option (Pair reference) (updateReferenceIfNeeded trig f s5))"

section \<open>The methods of the dispatcher\<close>

definition adaptationRef_setValue :: "adaptation_choice nullable \<Rightarrow> world \<Rightarrow> world" where
  "adaptationRef_setValue v s = s\<lparr>adaptationRef := sr_setValue v (adaptationRef s)\<rparr>"

text \<open>\<^verbatim>\<open>start\<close> (lines 98 to 119).\<close>

definition start :: "trigger_fn \<Rightarrow> track_setting option \<Rightarrow> world \<Rightarrow> world option" where
  "start trig initialTrackInfo s =
     (let s1 = s\<lparr>updateToken := True\<rparr> in
      case initialTrackInfo of
        None \<Rightarrow>
          Some (adaptationRef_setValue Null (s1\<lparr>lastEmitted := Null, updateToken := False\<rparr>))
      | Some ti \<Rightarrow>
          (case constructLockedRepresentationsReference trig ti s1 of
             None \<Rightarrow> None
           | Some (reference, s2) \<Rightarrow>
               if \<not> updateToken s2 then Some s2
               else Some (adaptationRef_setValue
                      (Val \<lparr>ac_adaptation = ts_adaptation ti,
                            ac_switchingMode = ts_switchingMode ti,
                            ac_representations = reference,
                            ac_relativeResumingPosition = None\<rparr>)
                      (s2\<lparr>lastEmitted := Val \<lparr>le_adaptation = ts_adaptation ti,
                                               le_switchingMode = ts_switchingMode ti,
                                               le_lockedRepresentations = None\<rparr>,
                          updateToken := False\<rparr>))))"

text \<open>\<^verbatim>\<open>updateTrack\<close> (lines 125 to 153).\<close>

definition updateTrack :: "trigger_fn \<Rightarrow> track_setting option \<Rightarrow> world \<Rightarrow> world option" where
  "updateTrack trig newTrackInfo s =
     (let s1 = s\<lparr>updateToken := True\<rparr> in
      case newTrackInfo of
        None \<Rightarrow>
          if lastEmitted s1 = Null then Some s1
          else Some (adaptationRef_setValue Null
                 ((canceller_cancel (s1\<lparr>updateToken := False\<rparr>))
                    \<lparr>canceller := new_TaskCanceller, lastEmitted := Null\<rparr>))
      | Some ti \<Rightarrow>
          (case constructLockedRepresentationsReference trig ti
                  ((canceller_cancel s1)\<lparr>canceller := new_TaskCanceller\<rparr>) of
             None \<Rightarrow> None
           | Some (reference, s2) \<Rightarrow>
               if \<not> updateToken s2 then Some s2
               else Some (adaptationRef_setValue
                      (Val \<lparr>ac_adaptation = ts_adaptation ti,
                            ac_switchingMode = ts_switchingMode ti,
                            ac_representations = reference,
                            ac_relativeResumingPosition = ts_relativeResumingPosition ti\<rparr>)
                      (s2\<lparr>lastEmitted := Val \<lparr>le_adaptation = ts_adaptation ti,
                                               le_switchingMode = ts_switchingMode ti,
                                               le_lockedRepresentations = None\<rparr>,
                          updateToken := False\<rparr>))))"

text \<open>
  \<^verbatim>\<open>dispose\<close> (lines 241 to 245). Modelled from the spec: \<^verbatim>\<open>removeEventListener()\<close>
  of the \<^verbatim>\<open>EventEmitter\<close> base class, called with no argument, detaches every listener
  of the dispatcher.
\<close>

definition dispose :: "world \<Rightarrow> world" where
  "dispose s =
     (let s1 = s\<lparr>listeners := []\<rparr>;
          s2 = canceller_cancel s1
      in s2\<lparr>adaptationRef := sr_finish (adaptationRef s2)\<rparr>)"

section \<open>Listeners and re-entrant calls\<close>

text \<open>Running \<open>step\<close> on each element of a list, stopping when one does not return.\<close>

fun run_all :: "('a \<Rightarrow> world \<Rightarrow> world option) \<Rightarrow> 'a list \<Rightarrow> world \<Rightarrow> world option" where
  "run_all step [] s = Some s"
| "run_all step (x # xs) s =
     (case step x s of None \<Rightarrow> None | Some s' \<Rightarrow> run_all step xs s')"

text \<open>
  Modelled from the spec: a publish on a locked-Representations reference replaces the
  value and calls, in subscription order, every subscriber that is still subscribed
  when its turn comes.
\<close>

definition notify_subscriber :: "trigger_fn \<Rightarrow> nat \<Rightarrow> closure \<Rightarrow> world \<Rightarrow> world option" where
  "notify_subscriber trig l f s =
     (if f \<in> set (lr_subscribers (lockedRefs s l)) then updateReferenceIfNeeded trig f s
      else Some s)"

definition lock_setValue ::
  "trigger_fn \<Rightarrow> nat \<Rightarrow> representations_choice option \<Rightarrow> world \<Rightarrow> world option" where
  "lock_setValue trig l v s =
     run_all (notify_subscriber trig l) (lr_subscribers (lockedRefs s l))
       (s\<lparr>lockedRefs := (lockedRefs s)(l := (lockedRefs s l)\<lparr>lr_value := v\<rparr>)\<rparr>)"

text \<open>
  Modelled from the spec: the \<^verbatim>\<open>Manifest\<close> sends an event by calling the listeners
  registered for it when the event is sent, in registration order.
\<close>

definition manifest_trigger :: "trigger_fn \<Rightarrow> manifest_event \<Rightarrow> world \<Rightarrow> world option" where
  "manifest_trigger trig ev s =
     run_all (updateReferenceIfNeeded trig)
       (map snd (filter (\<lambda>p. fst p = ev) (manifestListeners s))) s"

fun run_call :: "trigger_fn \<Rightarrow> api_call \<Rightarrow> world \<Rightarrow> world option" where
  "run_call trig (CallStart ti) s = start trig ti s"
| "run_call trig (CallUpdateTrack ti) s = updateTrack trig ti s"
| "run_call trig CallDispose s = Some (dispose s)"
| "run_call trig (CallLockSetValue l v) s = lock_setValue trig l v s"
| "run_call trig (CallManifestTrigger ev) s = manifest_trigger trig ev s"

text \<open>
  Modelled from the spec: \<^verbatim>\<open>trigger\<close> of the \<^verbatim>\<open>EventEmitter\<close> base class. The event
  is sent to the listeners registered for it at that time, in registration order, each
  running to completion. The first argument bounds the depth of the calls of \<^verbatim>\<open>trigger\<close>
  inside one another: \<open>None\<close> when the bound is reached.
\<close>

primrec trigger :: "nat \<Rightarrow> event \<Rightarrow> world \<Rightarrow> world option" where
  "trigger 0 ev s = None"
| "trigger (Suc n) ev s =
     run_all (run_all (run_call (trigger n)))
       (map snd (filter (\<lambda>p. fst p = ev) (listeners s)))
       (s\<lparr>emitted := emitted s @ [ev]\<rparr>)"

text \<open>
  \<^verbatim>\<open>new TrackDispatcher(manifest, adaptationRef)\<close> (lines 84 to 93) on a manifest with
  no listener yet: the fields the constructor sets, and the objects of the caller.
\<close>

definition new_TrackDispatcher ::
  "adaptation_choice nullable shared_reference \<Rightarrow> (nat \<Rightarrow> lock_reference) \<Rightarrow> (nat \<Rightarrow> bool) \<Rightarrow>
   (representation \<Rightarrow> bool) \<Rightarrow> (nat \<Rightarrow> representation list) \<Rightarrow> world" where
  "new_TrackDispatcher aref locks supported playable playableOf =
     \<lparr>adaptationRef = aref,
      lastEmitted = Undefined,
      canceller = new_TaskCanceller,
      updateToken = False,
      listeners = [],
      emitted = [],
      manifestListeners = [],
      references = (\<lambda>_. new_reference \<lparr>rc_representations = [], rc_switchingMode = ''lazy''\<rparr>),
      nextReference = 0,
      lockedRefs = locks,
      isSupported = supported,
      isPlayable = playable,
      getPlayableRepresentations = playableOf\<rparr>"

text \<open>\<^verbatim>\<open>addEventListener\<close> of the dispatcher's \<^verbatim>\<open>EventEmitter\<close> base class.\<close>

definition addEventListener :: "event \<Rightarrow> api_call list \<Rightarrow> world \<Rightarrow> world" where
  "addEventListener ev cb s = s\<lparr>listeners := listeners s @ [(ev, cb)]\<rparr>"

text \<open>
  The world in which \<^verbatim>\<open>_constructLockedRepresentationsReference\<close> first runs its
  closure (after lines 168 to 181): the sub-channel allocated, the two manifest
  listeners added, the clean-up and the lock subscription registered.
\<close>

definition installed :: "track_setting \<Rightarrow> world \<Rightarrow> world" where
  "installed trackInfo s =
     (let f = \<lparr>cl_trackInfo = trackInfo, cl_reference = nextReference s\<rparr>
      in lock_onUpdate (ts_lockedRepresentations trackInfo) f
           (signal_register (RemoveListeners f)
             (manifest_addEventListener ManifestUpdate f
               (manifest_addEventListener DecipherabilityUpdate f
                 (s\<lparr>references := (references s)
                       (nextReference s := new_reference
                          \<lparr>rc_representations = [], rc_switchingMode = ''lazy''\<rparr>),
                    nextReference := Suc (nextReference s)\<rparr>)))))"

section \<open>Invariants\<close>

text \<open>
  A property of the world is closed when each elementary step of the dispatcher keeps
  it: installing a sub-channel, publishing sorted non-empty candidates on a
  sub-channel, publishing on or finishing the outward channel, cancelling (and
  replacing) the canceller, and the updates of single fields.
\<close>

definition world_closed :: "(world \<Rightarrow> bool) \<Rightarrow> bool" where
  "world_closed I \<longleftrightarrow>
     (\<forall>s ti. I s \<longrightarrow> I (installed ti s)) \<and>
     (\<forall>s r xs m. I s \<longrightarrow> xs \<noteq> [] \<longrightarrow>
        I (reference_setValue r
             \<lparr>rc_representations = sort_key bitrate xs, rc_switchingMode = m\<rparr> s)) \<and>
     (\<forall>s v. I s \<longrightarrow> I (adaptationRef_setValue v s)) \<and>
     (\<forall>s. I s \<longrightarrow> I (s\<lparr>adaptationRef := sr_finish (adaptationRef s)\<rparr>)) \<and>
     (\<forall>s. I s \<longrightarrow> I (canceller_cancel s)) \<and>
     (\<forall>s. I s \<longrightarrow> I ((canceller_cancel s)\<lparr>canceller := new_TaskCanceller\<rparr>)) \<and>
     (\<forall>s x. I s \<longrightarrow> I (s\<lparr>isSupported := x\<rparr>)) \<and>
     (\<forall>s b. I s \<longrightarrow> I (s\<lparr>updateToken := b\<rparr>)) \<and>
     (\<forall>s le. I s \<longrightarrow> I (s\<lparr>lastEmitted := le\<rparr>)) \<and>
     (\<forall>s e. I s \<longrightarrow> I (s\<lparr>emitted := e\<rparr>)) \<and>
     (\<forall>s. I s \<longrightarrow> I (s\<lparr>listeners := []\<rparr>)) \<and>
     (\<forall>s l w. I s \<longrightarrow>
        I (s\<lparr>lockedRefs := (lockedRefs s)(l := (lockedRefs s l)\<lparr>lr_value := w\<rparr>)\<rparr>))"

text \<open>Every value published on a sub-channel that the dispatcher has built satisfies \<open>P\<close>.\<close>

definition all_published :: "(representations_choice \<Rightarrow> bool) \<Rightarrow> world \<Rightarrow> bool" where
  "all_published P s =
     list_all (\<lambda>r. list_all P (sr_published (references s r))) [0..<nextReference s]"

text \<open>
  The listeners that a clean-up takes off the manifest, and the subscriptions it takes
  off a locked-Representations reference. A world is tracked when the listeners of the
  manifest and the subscribers of the lock references are exactly those with a clean-up
  registered on the current canceller, in registration order, and a cancelled canceller
  has no clean-up left. The world of a new dispatcher is tracked when nothing else has
  subscribed to its lock references.
\<close>

fun cleanup_listeners :: "cleanup \<Rightarrow> (manifest_event \<times> closure) list" where
  "cleanup_listeners (RemoveListeners f) = [(DecipherabilityUpdate, f), (ManifestUpdate, f)]"
| "cleanup_listeners (Unlisten l f) = []"

fun cleanup_subscribers :: "nat \<Rightarrow> cleanup \<Rightarrow> closure list" where
  "cleanup_subscribers l (RemoveListeners f) = []"
| "cleanup_subscribers l (Unlisten l' f) = (if l' = l then [f] else [])"

definition tracked :: "world \<Rightarrow> bool" where
  "tracked s \<longleftrightarrow>
     manifestListeners s = concat (map cleanup_listeners (tc_cleanups (canceller s))) \<and>
     (\<forall>l. lr_subscribers (lockedRefs s l) =
            concat (map (cleanup_subscribers l) (tc_cleanups (canceller s)))) \<and>
     (tc_isCancelled (canceller s) \<longrightarrow> tc_cleanups (canceller s) = [])"

section \<open>Observations and example worlds\<close>

text \<open>What a test would read off a world after a call: the outward channel with the
  events sent, the snapshot with the update token, a sub-channel with the flag of its
  Adaptation, and the value of a lock.\<close>

definition outward_view ::
  "world \<Rightarrow> adaptation_choice nullable \<times> adaptation_choice nullable list \<times> event list" where
  "outward_view s = (sr_value (adaptationRef s), sr_published (adaptationRef s), emitted s)"

definition token_view :: "world \<Rightarrow> last_emitted nullable \<times> bool" where
  "token_view s = (lastEmitted s, updateToken s)"

definition subchannel_view ::
  "nat \<Rightarrow> nat \<Rightarrow> world \<Rightarrow>
   bool \<times> event list \<times> representations_choice \<times> representations_choice list" where
  "subchannel_view a r s =
     (isSupported s a, emitted s, sr_value (references s r), sr_published (references s r))"

definition lock_view :: "nat \<Rightarrow> world \<Rightarrow> representations_choice option" where
  "lock_view l s = lr_value (lockedRefs s l)"

text \<open>
  The example world is that of a new dispatcher. Every Representation but \<open>exR4\<close> is
  playable. The Adaptation 0 has the playable Representations \<open>exR1\<close>, \<open>exR2\<close>,
  \<open>exR3\<close> (bitrates 5, 1, 3), the Adaptation 2 has four, two of them of bitrate 3, and
  every other Adaptation has none. The lock reference 1 holds \<open>exR2\<close> with the mode
  \<^verbatim>\<open>"reload"\<close>, the lock reference 2 holds \<open>exR4\<close>, and every other lock reference holds
  null. \<open>ex_setting a l\<close> is the track setting of the Adaptation \<open>a\<close> with the lock
  reference \<open>l\<close>, \<open>ex_closure a l\<close> its closure on the sub-channel 0.
\<close>

definition exR1 :: representation where "exR1 = \<lparr>rep_id = ''r1'', bitrate = 5\<rparr>"
definition exR2 :: representation where "exR2 = \<lparr>rep_id = ''r2'', bitrate = 1\<rparr>"
definition exR3 :: representation where "exR3 = \<lparr>rep_id = ''r3'', bitrate = 3\<rparr>"
definition exR4 :: representation where "exR4 = \<lparr>rep_id = ''r4'', bitrate = 2\<rparr>"
definition exR5 :: representation where "exR5 = \<lparr>rep_id = ''r5'', bitrate = 3\<rparr>"

definition ex_locks :: "nat \<Rightarrow> lock_reference" where
  "ex_locks l =
     (if l = 1 then \<lparr>lr_value = Some \<lparr>rc_representations = [exR2], rc_switchingMode = ''reload''\<rparr>,
                     lr_subscribers = []\<rparr>
      else if l = 2 then \<lparr>lr_value = Some \<lparr>rc_representations = [exR4], rc_switchingMode = ''seamless''\<rparr>,
                     lr_subscribers = []\<rparr>
      else \<lparr>lr_value = None, lr_subscribers = []\<rparr>)"

definition ex_world :: world where
  "ex_world = new_TrackDispatcher (new_reference Undefined) ex_locks (\<lambda>_. True)
      (\<lambda>r. rep_id r \<noteq> ''r4'')
      (\<lambda>a. if a = 0 then [exR1, exR2, exR3]
           else if a = 2 then [exR5, exR1, exR3, exR2] else [])"

definition ex_setting :: "nat \<Rightarrow> nat \<Rightarrow> track_setting" where
  "ex_setting a l = \<lparr>ts_adaptation = a, ts_switchingMode = ''seamless'',
      ts_relativeResumingPosition = Some 7, ts_lockedRepresentations = l\<rparr>"

definition ex_closure :: "nat \<Rightarrow> nat \<Rightarrow> closure" where
  "ex_closure a l = \<lparr>cl_trackInfo = ex_setting a l, cl_reference = 0\<rparr>"

text \<open>The example world with one listener of the event \<open>ev\<close>, which makes the calls
  \<open>calls\<close> in turn.\<close>

definition ex_listening :: "event \<Rightarrow> api_call list \<Rightarrow> world" where
  "ex_listening ev calls = addEventListener ev calls ex_world"

section \<open>Auxiliary lemmas\<close>

subsection \<open>The fields that the collaborators leave alone\<close>

lemma run_cleanup_fields [simp]:
  "adaptationRef (run_cleanup c s) = adaptationRef s"
  "lastEmitted (run_cleanup c s) = lastEmitted s"
  "canceller (run_cleanup c s) = canceller s"
  "updateToken (run_cleanup c s) = updateToken s"
  "listeners (run_cleanup c s) = listeners s"
  "emitted (run_cleanup c s) = emitted s"
  "references (run_cleanup c s) = references s"
  "nextReference (run_cleanup c s) = nextReference s"
  "isSupported (run_cleanup c s) = isSupported s"
  "isPlayable (run_cleanup c s) = isPlayable s"
  "getPlayableRepresentations (run_cleanup c s) = getPlayableRepresentations s"
  "lr_value (lockedRefs (run_cleanup c s) l) = lr_value (lockedRefs s l)"
  by (cases c; simp add: removeListeners_def manifest_removeEventListener_def unlisten_def)+

lemma fold_run_cleanup_fields [simp]:
  "adaptationRef (fold run_cleanup cs s) = adaptationRef s"
  "lastEmitted (fold run_cleanup cs s) = lastEmitted s"
  "canceller (fold run_cleanup cs s) = canceller s"
  "updateToken (fold run_cleanup cs s) = updateToken s"
  "listeners (fold run_cleanup cs s) = listeners s"
  "emitted (fold run_cleanup cs s) = emitted s"
  "references (fold run_cleanup cs s) = references s"
  "nextReference (fold run_cleanup cs s) = nextReference s"
  "isSupported (fold run_cleanup cs s) = isSupported s"
  "isPlayable (fold run_cleanup cs s) = isPlayable s"
  "getPlayableRepresentations (fold run_cleanup cs s) = getPlayableRepresentations s"
  "lr_value (lockedRefs (fold run_cleanup cs s) l) = lr_value (lockedRefs s l)"
  by (induction cs arbitrary: s; simp)+

lemma canceller_cancel_fields [simp]:
  "adaptationRef (canceller_cancel s) = adaptationRef s"
  "lastEmitted (canceller_cancel s) = lastEmitted s"
  "updateToken (canceller_cancel s) = updateToken s"
  "listeners (canceller_cancel s) = listeners s"
  "emitted (canceller_cancel s) = emitted s"
  "references (canceller_cancel s) = references s"
  "nextReference (canceller_cancel s) = nextReference s"
  "isSupported (canceller_cancel s) = isSupported s"
  "isPlayable (canceller_cancel s) = isPlayable s"
  "getPlayableRepresentations (canceller_cancel s) = getPlayableRepresentations s"
  "lr_value (lockedRefs (canceller_cancel s) l) = lr_value (lockedRefs s l)"
  by (simp_all add: canceller_cancel_def)

lemma signal_register_fields [simp]:
  "adaptationRef (signal_register c s) = adaptationRef s"
  "lastEmitted (signal_register c s) = lastEmitted s"
  "updateToken (signal_register c s) = updateToken s"
  "listeners (signal_register c s) = listeners s"
  "emitted (signal_register c s) = emitted s"
  "references (signal_register c s) = references s"
  "nextReference (signal_register c s) = nextReference s"
  "isSupported (signal_register c s) = isSupported s"
  "isPlayable (signal_register c s) = isPlayable s"
  "getPlayableRepresentations (signal_register c s) = getPlayableRepresentations s"
  "lr_value (lockedRefs (signal_register c s) l) = lr_value (lockedRefs s l)"
  by (simp_all add: signal_register_def)

lemma lock_onUpdate_fields [simp]:
  "adaptationRef (lock_onUpdate l f s) = adaptationRef s"
  "lastEmitted (lock_onUpdate l f s) = lastEmitted s"
  "updateToken (lock_onUpdate l f s) = updateToken s"
  "listeners (lock_onUpdate l f s) = listeners s"
  "emitted (lock_onUpdate l f s) = emitted s"
  "references (lock_onUpdate l f s) = references s"
  "nextReference (lock_onUpdate l f s) = nextReference s"
  "isSupported (lock_onUpdate l f s) = isSupported s"
  "isPlayable (lock_onUpdate l f s) = isPlayable s"
  "getPlayableRepresentations (lock_onUpdate l f s) = getPlayableRepresentations s"
  "lr_value (lockedRefs (lock_onUpdate l f s) l') = lr_value (lockedRefs s l')"
  by (simp_all add: lock_onUpdate_def)

lemma manifest_addEventListener_fields [simp]:
  "adaptationRef (manifest_addEventListener ev f s) = adaptationRef s"
  "lastEmitted (manifest_addEventListener ev f s) = lastEmitted s"
  "canceller (manifest_addEventListener ev f s) = canceller s"
  "updateToken (manifest_addEventListener ev f s) = updateToken s"
  "listeners (manifest_addEventListener ev f s) = listeners s"
  "emitted (manifest_addEventListener ev f s) = emitted s"
  "references (manifest_addEventListener ev f s) = references s"
  "nextReference (manifest_addEventListener ev f s) = nextReference s"
  "isSupported (manifest_addEventListener ev f s) = isSupported s"
  "isPlayable (manifest_addEventListener ev f s) = isPlayable s"
  "getPlayableRepresentations (manifest_addEventListener ev f s) = getPlayableRepresentations s"
  "lockedRefs (manifest_addEventListener ev f s) = lockedRefs s"
  by (simp_all add: manifest_addEventListener_def)

subsection \<open>The recompute\<close>

text \<open>The loop finds a differing id iff there is one at or after \<open>i\<close>.\<close>

lemma idDiffersFrom_iff:
  "idDiffersFrom i oldReps sortedReps \<longleftrightarrow>
     (\<exists>j. i \<le> j \<and> j < length sortedReps \<and> rep_id (oldReps ! j) \<noteq> rep_id (sortedReps ! j))"
proof (induction i oldReps sortedReps rule: idDiffersFrom.induct)
  case (1 i oldReps sortedReps)
  show ?case
  proof (cases "i < length sortedReps")
    case False
    then show ?thesis by (subst idDiffersFrom.simps) auto
  next
    case True
    show ?thesis
    proof (cases "rep_id (oldReps ! i) \<noteq> rep_id (sortedReps ! i)")
      case True
      with \<open>i < length sortedReps\<close> show ?thesis
        by (subst idDiffersFrom.simps) auto
    next
      case False
      with True 1 have "idDiffersFrom i oldReps sortedReps \<longleftrightarrow>
          (\<exists>j. Suc i \<le> j \<and> j < length sortedReps \<and> rep_id (oldReps ! j) \<noteq> rep_id (sortedReps ! j))"
        by (subst idDiffersFrom.simps) simp
      also have "\<dots> \<longleftrightarrow> (\<exists>j. i \<le> j \<and> j < length sortedReps \<and> rep_id (oldReps ! j) \<noteq> rep_id (sortedReps ! j))"
        using False by (metis Suc_leI le_neq_implies_less Suc_leD)
      finally show ?thesis .
    qed
  qed
qed

lemma ids_differ_iff:
  "map rep_id xs \<noteq> map rep_id ys \<longleftrightarrow>
     length ys \<noteq> length xs \<or> (\<exists>j < length ys. rep_id (xs ! j) \<noteq> rep_id (ys ! j))"
proof -
  have "map rep_id xs = map rep_id ys \<longleftrightarrow>
      length xs = length ys \<and> (\<forall>j < length xs. rep_id (xs ! j) = rep_id (ys ! j))"
    using list_eq_iff_nth_eq [of "map rep_id xs" "map rep_id ys"] by auto
  then show ?thesis by auto
qed

lemma publishIfChanged_nonempty:
  assumes "playable \<noteq> []"
  shows "publishIfChanged trig f playable m s =
     Some (if map rep_id (rc_representations (sr_value (references s (cl_reference f))))
                \<noteq> map rep_id (sort_key bitrate playable)
           then reference_setValue (cl_reference f)
                  \<lparr>rc_representations = sort_key bitrate playable, rc_switchingMode = m\<rparr> s
           else s)"
proof -
  let ?old = "rc_representations (sr_value (references s (cl_reference f)))"
  let ?new = "sort_key bitrate playable"
  have "map rep_id ?old \<noteq> map rep_id ?new \<longleftrightarrow>
      length ?new \<noteq> length ?old \<or> idDiffersFrom 0 ?old ?new"
    by (simp add: ids_differ_iff idDiffersFrom_iff)
  with assms show ?thesis
    by (auto simp: publishIfChanged_def Let_def)
qed

lemma publishIfChanged_empty:
  "publishIfChanged trig f [] m s =
     trig NoPlayableRepresentation
       (s\<lparr>isSupported := (isSupported s)(ts_adaptation (cl_trackInfo f) := False)\<rparr>)"
  by (simp add: publishIfChanged_def)

lemma updateReferenceIfNeeded_nonempty:
  assumes "playableRepresentations f s \<noteq> []"
  shows "updateReferenceIfNeeded trig f s =
     Some (if map rep_id (rc_representations (sr_value (references s (cl_reference f))))
                \<noteq> map rep_id (sort_key bitrate (playableRepresentations f s))
           then reference_setValue (cl_reference f)
                  \<lparr>rc_representations = sort_key bitrate (playableRepresentations f s),
                   rc_switchingMode = switchingModeOf f s\<rparr> s
           else s)"
  using assms
  by (auto simp: updateReferenceIfNeeded_def playableRepresentations_def switchingModeOf_def
      publishIfChanged_nonempty Let_def split: option.splits)

text \<open>The construction of a sub-channel runs its closure on the installed world.\<close>

lemma construct_installed:
  "constructLockedRepresentationsReference trig ti s =
     map_option (Pair (nextReference s))
       (updateReferenceIfNeeded trig \<lparr>cl_trackInfo = ti, cl_reference = nextReference s\<rparr>
          (installed ti s))"
  by (simp add: constructLockedRepresentationsReference_def installed_def Let_def)

lemma installed_fields [simp]:
  "adaptationRef (installed ti s) = adaptationRef s"
  "lastEmitted (installed ti s) = lastEmitted s"
  "updateToken (installed ti s) = updateToken s"
  "listeners (installed ti s) = listeners s"
  "emitted (installed ti s) = emitted s"
  "nextReference (installed ti s) = Suc (nextReference s)"
  "references (installed ti s) = (references s)
     (nextReference s := new_reference \<lparr>rc_representations = [], rc_switchingMode = ''lazy''\<rparr>)"
  "isSupported (installed ti s) = isSupported s"
  "isPlayable (installed ti s) = isPlayable s"
  "getPlayableRepresentations (installed ti s) = getPlayableRepresentations s"
  "lr_value (lockedRefs (installed ti s) l) = lr_value (lockedRefs s l)"
  by (simp_all add: installed_def Let_def)

subsection \<open>Invariants that every call preserves\<close>

lemma world_closedD:
  assumes "world_closed I" "I s"
  shows "I (installed ti s)"
    and "xs \<noteq> [] \<Longrightarrow> I (reference_setValue r
           \<lparr>rc_representations = sort_key bitrate xs, rc_switchingMode = m\<rparr> s)"
    and "I (adaptationRef_setValue v s)"
    and "I (s\<lparr>adaptationRef := sr_finish (adaptationRef s)\<rparr>)"
    and "I (canceller_cancel s)"
    and "I ((canceller_cancel s)\<lparr>canceller := new_TaskCanceller\<rparr>)"
    and "I (s\<lparr>isSupported := x\<rparr>)"
    and "I (s\<lparr>updateToken := b\<rparr>)"
    and "I (s\<lparr>lastEmitted := le\<rparr>)"
    and "I (s\<lparr>emitted := e\<rparr>)"
    and "I (s\<lparr>listeners := []\<rparr>)"
    and "I (s\<lparr>lockedRefs := (lockedRefs s)(l := (lockedRefs s l)\<lparr>lr_value := w\<rparr>)\<rparr>)"
  using assms unfolding world_closed_def by simp_all

lemma publishIfChanged_inv:
  assumes I: "world_closed I"
    and trig: "\<And>ev s s'. I s \<Longrightarrow> trig ev s = Some s' \<Longrightarrow> I s'"
    and s: "I s" and run: "publishIfChanged trig f playable m s = Some s'"
  shows "I s'"
proof (cases "playable = []")
  case True
  with run have "trig NoPlayableRepresentation
      (s\<lparr>isSupported := (isSupported s)(ts_adaptation (cl_trackInfo f) := False)\<rparr>) = Some s'"
    by (simp add: publishIfChanged_empty)
  with world_closedD(7) [OF I s] show ?thesis by (rule trig)
next
  case False
  from run have "s' = s \<or> s' = reference_setValue (cl_reference f)
      \<lparr>rc_representations = sort_key bitrate playable, rc_switchingMode = m\<rparr> s"
    by (simp add: publishIfChanged_nonempty [OF False] split: if_splits)
  then show ?thesis
    using s world_closedD(2) [OF I s False] by auto
qed

lemma updateReferenceIfNeeded_inv:
  assumes I: "world_closed I"
    and trig: "\<And>ev s s'. I s \<Longrightarrow> trig ev s = Some s' \<Longrightarrow> I s'"
    and s: "I s" and run: "updateReferenceIfNeeded trig f s = Some s'"
  shows "I s'"
proof (cases "lr_value (lockedRefs s (ts_lockedRepresentations (cl_trackInfo f)))")
  case None
  with run have p: "publishIfChanged trig f
      (getPlayableRepresentations s (ts_adaptation (cl_trackInfo f))) ''lazy'' s = Some s'"
    by (simp add: updateReferenceIfNeeded_def)
  show ?thesis
    by (rule publishIfChanged_inv [where trig = trig, OF I _ s p]) (erule (1) trig)
next
  case (Some repSettings)
  show ?thesis
  proof (cases "filter (isPlayable s) (rc_representations repSettings) = []")
    case True
    with run Some have "trig NoPlayableLockedRepresentation s = Some s'"
      by (simp add: updateReferenceIfNeeded_def)
    with s show ?thesis by (rule trig)
  next
    case False
    with run Some have p: "publishIfChanged trig f
        (filter (isPlayable s) (rc_representations repSettings)) (rc_switchingMode repSettings) s = Some s'"
      by (simp add: updateReferenceIfNeeded_def)
    show ?thesis
      by (rule publishIfChanged_inv [where trig = trig, OF I _ s p]) (erule (1) trig)
  qed
qed

lemma construct_inv:
  assumes I: "world_closed I"
    and trig: "\<And>ev s s'. I s \<Longrightarrow> trig ev s = Some s' \<Longrightarrow> I s'"
    and s: "I s"
    and run: "constructLockedRepresentationsReference trig ti s = Some (r, s')"
  shows "I s'"
proof -
  from run have u: "updateReferenceIfNeeded trig
      \<lparr>cl_trackInfo = ti, cl_reference = nextReference s\<rparr> (installed ti s) = Some s'"
    by (auto simp: construct_installed)
  show ?thesis
    by (rule updateReferenceIfNeeded_inv [where trig = trig, OF I _ world_closedD(1) [OF I s] u])
       (erule (1) trig)
qed

lemma commit_inv:
  assumes I: "world_closed I" and s: "I s"
  shows "I (adaptationRef_setValue v (s\<lparr>lastEmitted := le, updateToken := b\<rparr>))"
proof -
  have "I (s\<lparr>lastEmitted := le\<rparr>)" by (rule world_closedD(9) [OF I s])
  then have "I (s\<lparr>lastEmitted := le, updateToken := b\<rparr>)" by (rule world_closedD(8) [OF I])
  then show ?thesis by (rule world_closedD(3) [OF I])
qed

lemma start_inv:
  assumes I: "world_closed I"
    and trig: "\<And>ev s s'. I s \<Longrightarrow> trig ev s = Some s' \<Longrightarrow> I s'"
    and s: "I s" and run: "start trig ti s = Some s'"
  shows "I s'"
proof (cases ti)
  case None
  have "I (s\<lparr>updateToken := True\<rparr>)" by (rule world_closedD(8) [OF I s])
  from commit_inv [OF I this, where v = Null and le = Null and b = False] run None show ?thesis
    by (simp add: start_def Let_def)
next
  case (Some t)
  have s1: "I (s\<lparr>updateToken := True\<rparr>)" by (rule world_closedD(8) [OF I s])
  from run Some obtain r s2 where
    c: "constructLockedRepresentationsReference trig t (s\<lparr>updateToken := True\<rparr>) = Some (r, s2)"
    by (auto simp: start_def Let_def split: option.splits)
  have s2: "I s2"
    by (rule construct_inv [where trig = trig, OF I _ s1 c]) (erule (1) trig)
  from run Some c have "s' = s2 \<or>
      (\<exists>v le. s' = adaptationRef_setValue v (s2\<lparr>lastEmitted := le, updateToken := False\<rparr>))"
    by (auto simp: start_def Let_def split: if_splits)
  with s2 commit_inv [OF I s2] show ?thesis by auto
qed

lemma updateTrack_inv:
  assumes I: "world_closed I"
    and trig: "\<And>ev s s'. I s \<Longrightarrow> trig ev s = Some s' \<Longrightarrow> I s'"
    and s: "I s" and run: "updateTrack trig ti s = Some s'"
  shows "I s'"
proof (cases ti)
  case None
  have a: "I (s\<lparr>updateToken := True\<rparr>)" by (rule world_closedD(8) [OF I s])
  have "I (s\<lparr>updateToken := False\<rparr>)" by (rule world_closedD(8) [OF I s])
  then have "I ((canceller_cancel (s\<lparr>updateToken := False\<rparr>))\<lparr>canceller := new_TaskCanceller\<rparr>)"
    by (rule world_closedD(6) [OF I])
  then have "I ((canceller_cancel (s\<lparr>updateToken := False\<rparr>))
                 \<lparr>canceller := new_TaskCanceller, lastEmitted := Null\<rparr>)"
    by (rule world_closedD(9) [OF I])
  then have b: "I (adaptationRef_setValue Null
       ((canceller_cancel (s\<lparr>updateToken := False\<rparr>))
          \<lparr>canceller := new_TaskCanceller, lastEmitted := Null\<rparr>))"
    by (rule world_closedD(3) [OF I])
  from run None a b show ?thesis
    by (auto simp: updateTrack_def Let_def split: if_splits)
next
  case (Some t)
  let ?s1 = "(canceller_cancel (s\<lparr>updateToken := True\<rparr>))\<lparr>canceller := new_TaskCanceller\<rparr>"
  have "I (s\<lparr>updateToken := True\<rparr>)" by (rule world_closedD(8) [OF I s])
  then have s1: "I ?s1" by (rule world_closedD(6) [OF I])
  from run Some obtain r s2 where
    c: "constructLockedRepresentationsReference trig t ?s1 = Some (r, s2)"
    by (auto simp: updateTrack_def Let_def split: option.splits)
  have s2: "I s2"
    by (rule construct_inv [where trig = trig, OF I _ s1 c]) (erule (1) trig)
  from run Some c have "s' = s2 \<or>
      (\<exists>v le. s' = adaptationRef_setValue v (s2\<lparr>lastEmitted := le, updateToken := False\<rparr>))"
    by (auto simp: updateTrack_def Let_def split: if_splits)
  with s2 commit_inv [OF I s2] show ?thesis by auto
qed

lemma dispose_inv:
  assumes I: "world_closed I" and s: "I s"
  shows "I (dispose s)"
proof -
  have "I (s\<lparr>listeners := []\<rparr>)" by (rule world_closedD(11) [OF I s])
  then have "I (canceller_cancel (s\<lparr>listeners := []\<rparr>))" by (rule world_closedD(5) [OF I])
  then have "I ((canceller_cancel (s\<lparr>listeners := []\<rparr>))
      \<lparr>adaptationRef := sr_finish (adaptationRef (canceller_cancel (s\<lparr>listeners := []\<rparr>)))\<rparr>)"
    by (rule world_closedD(4) [OF I])
  then show ?thesis by (simp add: dispose_def Let_def)
qed

lemma run_all_inv:
  assumes step: "\<And>x s s'. I s \<Longrightarrow> step x s = Some s' \<Longrightarrow> I s'"
    and "I s" and "run_all step xs s = Some s'"
  shows "I s'"
  using assms(2,3)
proof (induction xs arbitrary: s)
  case Nil
  then show ?case by simp
next
  case (Cons x xs)
  from Cons.prems(2) obtain s1 where x: "step x s = Some s1" and xs: "run_all step xs s1 = Some s'"
    by (auto split: option.splits)
  from Cons.prems(1) x have "I s1" by (rule step)
  then show ?case using xs by (rule Cons.IH)
qed

lemma lock_setValue_inv:
  assumes I: "world_closed I"
    and trig: "\<And>ev s s'. I s \<Longrightarrow> trig ev s = Some s' \<Longrightarrow> I s'"
    and s: "I s" and run: "lock_setValue trig l v s = Some s'"
  shows "I s'"
proof -
  have step: "I s' " if "I s" "notify_subscriber trig l f s = Some s'" for f s s'
  proof (cases "f \<in> set (lr_subscribers (lockedRefs s l))")
    case True
    with that(2) have u: "updateReferenceIfNeeded trig f s = Some s'"
      by (simp add: notify_subscriber_def)
    show ?thesis
      by (rule updateReferenceIfNeeded_inv [where trig = trig, OF I _ that(1) u]) (erule (1) trig)
  next
    case False
    with that show ?thesis by (simp add: notify_subscriber_def)
  qed
  have i: "I (s\<lparr>lockedRefs := (lockedRefs s)(l := (lockedRefs s l)\<lparr>lr_value := v\<rparr>)\<rparr>)"
    by (rule world_closedD(12) [OF I s])
  show ?thesis
    by (rule run_all_inv [where I = I and step = "notify_subscriber trig l",
          OF _ i run [unfolded lock_setValue_def]]) (erule (1) step)
qed

lemma manifest_trigger_inv:
  assumes I: "world_closed I"
    and trig: "\<And>ev s s'. I s \<Longrightarrow> trig ev s = Some s' \<Longrightarrow> I s'"
    and s: "I s" and run: "manifest_trigger trig ev s = Some s'"
  shows "I s'"
proof -
  have step: "I s'" if "I s" "updateReferenceIfNeeded trig f s = Some s'" for f s s'
    by (rule updateReferenceIfNeeded_inv [where trig = trig, OF I _ that]) (erule (1) trig)
  show ?thesis
    by (rule run_all_inv [where I = I and step = "updateReferenceIfNeeded trig",
          OF _ s run [unfolded manifest_trigger_def]]) (erule (1) step)
qed

lemma run_call_inv:
  assumes I: "world_closed I"
    and trig: "\<And>ev s s'. I s \<Longrightarrow> trig ev s = Some s' \<Longrightarrow> I s'"
    and s: "I s" and run: "run_call trig c s = Some s'"
  shows "I s'"
proof (cases c)
  case (CallStart ti)
  with run have r: "start trig ti s = Some s'" by simp
  show ?thesis by (rule start_inv [where trig = trig, OF I _ s r]) (erule (1) trig)
next
  case (CallUpdateTrack ti)
  with run have r: "updateTrack trig ti s = Some s'" by simp
  show ?thesis by (rule updateTrack_inv [where trig = trig, OF I _ s r]) (erule (1) trig)
next
  case CallDispose
  with run show ?thesis using dispose_inv [OF I s] by auto
next
  case (CallLockSetValue l v)
  with run have r: "lock_setValue trig l v s = Some s'" by simp
  show ?thesis by (rule lock_setValue_inv [where trig = trig, OF I _ s r]) (erule (1) trig)
next
  case (CallManifestTrigger ev)
  with run have r: "manifest_trigger trig ev s = Some s'" by simp
  show ?thesis by (rule manifest_trigger_inv [where trig = trig, OF I _ s r]) (erule (1) trig)
qed

lemma trigger_inv:
  assumes I: "world_closed I"
  shows "I s \<Longrightarrow> trigger n ev s = Some s' \<Longrightarrow> I s'"
proof (induction n arbitrary: ev s s')
  case 0
  then show ?case by simp
next
  case (Suc n)
  have call: "I s'" if "I s" "run_call (trigger n) c s = Some s'" for c s s'
    by (rule run_call_inv [where trig = "trigger n", OF I _ that]) (erule (1) Suc.IH)
  have cb: "I s'" if "I s" "run_all (run_call (trigger n)) cs s = Some s'" for cs s s'
    by (rule run_all_inv [where I = I and step = "run_call (trigger n)", OF _ that])
       (erule (1) call)
  have e: "I (s\<lparr>emitted := emitted s @ [ev]\<rparr>)"
    by (rule world_closedD(10) [OF I Suc.prems(1)])
  show ?case
    by (rule run_all_inv [where I = I and step = "run_all (run_call (trigger n))",
          OF _ e Suc.prems(2) [unfolded trigger.simps]]) (erule (1) cb)
qed

lemma run_call_trigger_inv:
  assumes I: "world_closed I" and s: "I s" and run: "run_call (trigger n) c s = Some s'"
  shows "I s'"
  by (rule run_call_inv [where trig = "trigger n", OF I _ s run]) (erule (1) trigger_inv [OF I])

lemma updateReferenceIfNeeded_trigger_inv:
  assumes I: "world_closed I" and s: "I s"
    and run: "updateReferenceIfNeeded (trigger n) f s = Some s'"
  shows "I s'"
  by (rule updateReferenceIfNeeded_inv [where trig = "trigger n", OF I _ s run])
     (erule (1) trigger_inv [OF I])

subsection \<open>The values published on the sub-channels\<close>

lemma all_published_iff:
  "all_published P s \<longleftrightarrow>
     (\<forall>r<nextReference s. \<forall>v\<in>set (sr_published (references s r)). P v)"
  by (auto simp: all_published_def list_all_iff)

lemma all_published_closed:
  assumes "\<And>xs m. xs \<noteq> [] \<Longrightarrow> P \<lparr>rc_representations = sort_key bitrate xs, rc_switchingMode = m\<rparr>"
  shows "world_closed (all_published P)"
  unfolding world_closed_def all_published_iff using assms
  by (auto simp: new_reference_def sr_setValue_def less_Suc_eq reference_setValue_def
      adaptationRef_setValue_def)

lemma nonempty_choice:
  "xs \<noteq> [] \<Longrightarrow> rc_representations \<lparr>rc_representations = sort_key bitrate xs, rc_switchingMode = m\<rparr> \<noteq> []"
  by (metis length_sort length_0_conv representations_choice.select_convs(1))

lemma all_published_run_call:
  assumes "\<And>xs m. xs \<noteq> [] \<Longrightarrow> P \<lparr>rc_representations = sort_key bitrate xs, rc_switchingMode = m\<rparr>"
    and "all_published P s" and "run_call (trigger n) c s = Some s'"
  shows "all_published P s'"
proof -
  have c: "world_closed (all_published P)"
    by (rule all_published_closed) (rule assms(1))
  show ?thesis by (rule run_call_trigger_inv [OF c assms(2,3)])
qed

lemma all_published_recompute:
  assumes "\<And>xs m. xs \<noteq> [] \<Longrightarrow> P \<lparr>rc_representations = sort_key bitrate xs, rc_switchingMode = m\<rparr>"
    and "all_published P s" and "updateReferenceIfNeeded (trigger n) f s = Some s'"
  shows "all_published P s'"
proof -
  have c: "world_closed (all_published P)"
    by (rule all_published_closed) (rule assms(1))
  show ?thesis by (rule updateReferenceIfNeeded_trigger_inv [OF c assms(2,3)])
qed

subsection \<open>Construction and commit\<close>

lemma playableRepresentations_eq:
  assumes "lr_value (lockedRefs s' (ts_lockedRepresentations (cl_trackInfo f))) =
           lr_value (lockedRefs s (ts_lockedRepresentations (cl_trackInfo f)))"
    and "isPlayable s' = isPlayable s"
    and "getPlayableRepresentations s' = getPlayableRepresentations s"
  shows "playableRepresentations f s' = playableRepresentations f s"
  using assms by (simp add: playableRepresentations_def split: option.splits)

lemma playableRepresentations_reference:
  "playableRepresentations \<lparr>cl_trackInfo = ti, cl_reference = r\<rparr> s =
   playableRepresentations \<lparr>cl_trackInfo = ti, cl_reference = r'\<rparr> s"
  by (simp add: playableRepresentations_def split: option.splits)

lemma construct_empty:
  assumes empty: "playableRepresentations \<lparr>cl_trackInfo = ti, cl_reference = r\<rparr> s = []"
  shows "constructLockedRepresentationsReference trig ti s =
           map_option (Pair (nextReference s))
             (case lr_value (lockedRefs s (ts_lockedRepresentations ti)) of
                None \<Rightarrow> trig NoPlayableRepresentation
                   ((installed ti s)\<lparr>isSupported := (isSupported s)(ts_adaptation ti := False)\<rparr>)
              | Some repSettings \<Rightarrow> trig NoPlayableLockedRepresentation (installed ti s))"
proof (cases "lr_value (lockedRefs s (ts_lockedRepresentations ti))")
  case None
  with empty show ?thesis
    by (simp add: construct_installed updateReferenceIfNeeded_def playableRepresentations_def
        publishIfChanged_empty)
next
  case (Some repSettings)
  with empty show ?thesis
    by (simp add: construct_installed updateReferenceIfNeeded_def playableRepresentations_def)
qed

text \<open>
  Listeners that make no call on the dispatcher, the lock references or the manifest
  leave the world as it is: the event is only recorded.
\<close>

lemma run_all_quiet:
  assumes "\<forall>cb \<in> set cbs. cb = []"
  shows "run_all (run_all step) cbs s = Some s"
  using assms by (induction cbs) simp_all

lemma trigger_quiet:
  assumes "\<forall>p \<in> set (listeners s). fst p = ev \<longrightarrow> snd p = []"
  shows "trigger (Suc n) ev s = Some (s\<lparr>emitted := emitted s @ [ev]\<rparr>)"
proof -
  from assms have "\<forall>cb \<in> set (map snd (filter (\<lambda>p. fst p = ev) (listeners s))). cb = []"
    by auto
  then show ?thesis by (simp add: run_all_quiet)
qed

lemma construct_empty_quiet:
  fixes ti s
  defines "ev \<equiv> (case lr_value (lockedRefs s (ts_lockedRepresentations ti)) of
                    None \<Rightarrow> NoPlayableRepresentation
                  | Some repSettings \<Rightarrow> NoPlayableLockedRepresentation)"
  assumes empty: "playableRepresentations \<lparr>cl_trackInfo = ti, cl_reference = nextReference s\<rparr> s = []"
    and quiet: "\<forall>p \<in> set (listeners s). fst p = ev \<longrightarrow> snd p = []"
  shows "\<exists>s'. constructLockedRepresentationsReference (trigger (Suc n)) ti s = Some (nextReference s, s') \<and>
           references s' (nextReference s) =
             new_reference \<lparr>rc_representations = [], rc_switchingMode = ''lazy''\<rparr> \<and>
           emitted s' = emitted s @ [ev] \<and>
           updateToken s' = updateToken s \<and> adaptationRef s' = adaptationRef s \<and>
           lastEmitted s' = lastEmitted s \<and> nextReference s' = Suc (nextReference s)"
proof (cases "lr_value (lockedRefs s (ts_lockedRepresentations ti))")
  case None
  let ?X = "(installed ti s)\<lparr>isSupported := (isSupported s)(ts_adaptation ti := False)\<rparr>"
  from None have ev: "ev = NoPlayableRepresentation" by (simp add: ev_def)
  from quiet have "\<forall>p \<in> set (listeners ?X). fst p = ev \<longrightarrow> snd p = []" by simp
  from trigger_quiet [OF this, of n] None ev show ?thesis
    by (simp add: construct_empty [OF empty])
next
  case (Some repSettings)
  let ?X = "installed ti s"
  from Some have ev: "ev = NoPlayableLockedRepresentation" by (simp add: ev_def)
  from quiet have "\<forall>p \<in> set (listeners ?X). fst p = ev \<longrightarrow> snd p = []" by simp
  from trigger_quiet [OF this, of n] Some ev show ?thesis
    by (simp add: construct_empty [OF empty])
qed

text \<open>
  A listener of \<^verbatim>\<open>noPlayableLockedRepresentation\<close> that makes the manifest send
  \<^verbatim>\<open>manifestUpdate\<close>, while a closure whose locked Representations are all unplayable
  listens to the manifest, never returns: the closure sends the event again.
\<close>

lemma warning_manifest_loop:
  assumes "map snd (filter (\<lambda>p. fst p = NoPlayableLockedRepresentation) (listeners s)) =
             [[CallManifestTrigger ManifestUpdate]]"
    and "map snd (filter (\<lambda>p. fst p = ManifestUpdate) (manifestListeners s)) = [f]"
    and "lr_value (lockedRefs s (ts_lockedRepresentations (cl_trackInfo f))) = Some repSettings"
    and "filter (isPlayable s) (rc_representations repSettings) = []"
  shows "trigger n NoPlayableLockedRepresentation s = None"
  using assms
proof (induction n arbitrary: s)
  case 0
  show ?case by simp
next
  case (Suc n)
  let ?s = "s\<lparr>emitted := emitted s @ [NoPlayableLockedRepresentation]\<rparr>"
  have "trigger n NoPlayableLockedRepresentation ?s = None"
    by (rule Suc.IH) (use Suc.prems in simp_all)
  then have "updateReferenceIfNeeded (trigger n) f ?s = None"
    using Suc.prems by (simp add: updateReferenceIfNeeded_def)
  then have "manifest_trigger (trigger n) ManifestUpdate ?s = None"
    using Suc.prems by (simp add: manifest_trigger_def)
  then show ?case using Suc.prems by simp
qed

lemma construct_nonempty:
  assumes nonempty: "playableRepresentations \<lparr>cl_trackInfo = ti, cl_reference = r\<rparr> s \<noteq> []"
  shows "\<exists>s'. constructLockedRepresentationsReference trig ti s = Some (nextReference s, s') \<and>
           listeners s' = listeners s \<and> adaptationRef s' = adaptationRef s \<and>
           lastEmitted s' = lastEmitted s \<and> updateToken s' = updateToken s \<and>
           nextReference s' = Suc (nextReference s) \<and> emitted s' = emitted s"
proof -
  let ?f = "\<lparr>cl_trackInfo = ti, cl_reference = nextReference s\<rparr>"
  have "playableRepresentations ?f (installed ti s) = playableRepresentations ?f s"
    by (rule playableRepresentations_eq) simp_all
  with nonempty have ne: "playableRepresentations ?f (installed ti s) \<noteq> []"
    using playableRepresentations_reference [of ti r s "nextReference s"] by simp
  show ?thesis
    unfolding construct_installed updateReferenceIfNeeded_nonempty [OF ne]
    by (simp add: reference_setValue_def)
qed

lemma updateTrack_commits:
  assumes target: "case B of None \<Rightarrow> lastEmitted s \<noteq> Null
                   | Some b \<Rightarrow> playableRepresentations \<lparr>cl_trackInfo = b, cl_reference = r\<rparr> s \<noteq> []"
  shows "\<exists>s'. updateTrack trig B s = Some s' \<and> \<not> updateToken s' \<and>
           adaptationRef s' =
             sr_setValue (case B of None \<Rightarrow> Null
                | Some b \<Rightarrow> Val \<lparr>ac_adaptation = ts_adaptation b, ac_switchingMode = ts_switchingMode b,
                     ac_representations = nextReference s,
                     ac_relativeResumingPosition = ts_relativeResumingPosition b\<rparr>) (adaptationRef s) \<and>
           lastEmitted s' =
             (case B of None \<Rightarrow> Null
              | Some b \<Rightarrow> Val \<lparr>le_adaptation = ts_adaptation b, le_switchingMode = ts_switchingMode b,
                     le_lockedRepresentations = None\<rparr>)"
proof (cases B)
  case None
  with target show ?thesis
    by (simp add: updateTrack_def Let_def adaptationRef_setValue_def)
next
  case (Some b)
  let ?s1 = "(canceller_cancel (s\<lparr>updateToken := True\<rparr>))\<lparr>canceller := new_TaskCanceller\<rparr>"
  from target Some have "playableRepresentations \<lparr>cl_trackInfo = b, cl_reference = r\<rparr> s \<noteq> []"
    by simp
  moreover have "playableRepresentations \<lparr>cl_trackInfo = b, cl_reference = r\<rparr> ?s1 =
      playableRepresentations \<lparr>cl_trackInfo = b, cl_reference = r\<rparr> s"
    by (rule playableRepresentations_eq) simp_all
  ultimately have ne: "playableRepresentations \<lparr>cl_trackInfo = b, cl_reference = r\<rparr> ?s1 \<noteq> []"
    by simp
  from construct_nonempty [OF ne, of trig] obtain s2 where
    c: "constructLockedRepresentationsReference trig b ?s1 = Some (nextReference s, s2)"
    and f: "adaptationRef s2 = adaptationRef s" "updateToken s2"
    by auto
  show ?thesis
    using Some c f by (simp add: updateTrack_def Let_def adaptationRef_setValue_def)
qed

lemma trigger_single:
  assumes "filter (\<lambda>p. fst p = ev) (listeners s) = [(ev, [c])]"
  shows "trigger (Suc n) ev s = run_call (trigger n) c (s\<lparr>emitted := emitted s @ [ev]\<rparr>)"
  using assms by (simp split: option.splits)

lemma trigger_updateTrack_commits:
  assumes listener: "filter (\<lambda>p. fst p = ev) (listeners s) = [(ev, [CallUpdateTrack B])]"
    and target: "case B of None \<Rightarrow> lastEmitted s \<noteq> Null
                 | Some b \<Rightarrow> playableRepresentations \<lparr>cl_trackInfo = b, cl_reference = r\<rparr> s \<noteq> []"
  shows "\<exists>s'. trigger (Suc n) ev s = Some s' \<and> \<not> updateToken s' \<and>
           adaptationRef s' =
             sr_setValue (case B of None \<Rightarrow> Null
                | Some b \<Rightarrow> Val \<lparr>ac_adaptation = ts_adaptation b, ac_switchingMode = ts_switchingMode b,
                     ac_representations = nextReference s,
                     ac_relativeResumingPosition = ts_relativeResumingPosition b\<rparr>) (adaptationRef s) \<and>
           lastEmitted s' =
             (case B of None \<Rightarrow> Null
              | Some b \<Rightarrow> Val \<lparr>le_adaptation = ts_adaptation b, le_switchingMode = ts_switchingMode b,
                     le_lockedRepresentations = None\<rparr>)"
proof -
  let ?s = "s\<lparr>emitted := emitted s @ [ev]\<rparr>"
  have t: "case B of None \<Rightarrow> lastEmitted ?s \<noteq> Null
           | Some b \<Rightarrow> playableRepresentations \<lparr>cl_trackInfo = b, cl_reference = r\<rparr> ?s \<noteq> []"
  proof (cases B)
    case None
    with target show ?thesis by simp
  next
    case (Some b)
    have "playableRepresentations \<lparr>cl_trackInfo = b, cl_reference = r\<rparr> ?s =
        playableRepresentations \<lparr>cl_trackInfo = b, cl_reference = r\<rparr> s"
      by (rule playableRepresentations_eq) simp_all
    with target Some show ?thesis by simp
  qed
  from updateTrack_commits [OF t, of "trigger n"] show ?thesis
    unfolding trigger_single [OF listener] by (simp cong: option.case_cong)
qed

subsection \<open>Re-entrant updates and the null track\<close>

text \<open>
  Let the sub-channel construction of an outer \<^verbatim>\<open>updateTrack(A)\<close> or \<^verbatim>\<open>start(A)\<close> send
  a warning event (A has no candidate) whose one listener calls \<^verbatim>\<open>updateTrack(B)\<close>,
  where B is a setting with a candidate, or B is null and the last emitted snapshot is
  not null. The inner call commits and resets the update token (lines 131 and 148), so
  the outer call returns at line 108 or 145: the outward channel, when not finished,
  receives the value of B and nothing else.
\<close>

lemma committing_inner_update_wins:
  fixes A B s
  defines "ev \<equiv> (case lr_value (lockedRefs s (ts_lockedRepresentations A)) of
                    None \<Rightarrow> NoPlayableRepresentation
                  | Some repSettings \<Rightarrow> NoPlayableLockedRepresentation)"
    and "vB \<equiv> (case B of None \<Rightarrow> Null
                | Some b \<Rightarrow> Val \<lparr>ac_adaptation = ts_adaptation b, ac_switchingMode = ts_switchingMode b,
                     ac_representations = Suc (nextReference s),
                     ac_relativeResumingPosition = ts_relativeResumingPosition b\<rparr>)"
    and "leB \<equiv> (case B of None \<Rightarrow> Null
              | Some b \<Rightarrow> Val \<lparr>le_adaptation = ts_adaptation b, le_switchingMode = ts_switchingMode b,
                     le_lockedRepresentations = None\<rparr>)"
  assumes empty: "playableRepresentations \<lparr>cl_trackInfo = A, cl_reference = nextReference s\<rparr> s = []"
    and listener: "filter (\<lambda>p. fst p = ev) (listeners s) = [(ev, [CallUpdateTrack B])]"
    and target: "case B of None \<Rightarrow> lastEmitted s \<noteq> Null
                 | Some b \<Rightarrow> playableRepresentations
                     \<lparr>cl_trackInfo = b, cl_reference = Suc (nextReference s)\<rparr> s \<noteq> []"
    and open_channel: "\<not> sr_finished (adaptationRef s)"
  shows "(\<exists>s'. updateTrack (trigger (Suc n)) (Some A) s = Some s' \<and>
            sr_value (adaptationRef s') = vB \<and>
            sr_published (adaptationRef s') = sr_published (adaptationRef s) @ [vB] \<and>
            lastEmitted s' = leB \<and> \<not> updateToken s') \<and>
         (\<exists>s'. start (trigger (Suc n)) (Some A) s = Some s' \<and>
            sr_value (adaptationRef s') = vB \<and>
            sr_published (adaptationRef s') = sr_published (adaptationRef s) @ [vB] \<and>
            lastEmitted s' = leB \<and> \<not> updateToken s')"
proof -
  have inner: "\<exists>s'. constructLockedRepresentationsReference (trigger (Suc n)) A s1 =
                      Some (nextReference s, s') \<and>
            sr_value (adaptationRef s') = vB \<and>
            sr_published (adaptationRef s') = sr_published (adaptationRef s) @ [vB] \<and>
            lastEmitted s' = leB \<and> \<not> updateToken s'"
    if same: "listeners s1 = listeners s" "lastEmitted s1 = lastEmitted s"
      "adaptationRef s1 = adaptationRef s" "nextReference s1 = nextReference s"
      "isPlayable s1 = isPlayable s" "getPlayableRepresentations s1 = getPlayableRepresentations s"
      "\<And>l. lr_value (lockedRefs s1 l) = lr_value (lockedRefs s l)"
    for s1
  proof -
    have e1: "playableRepresentations \<lparr>cl_trackInfo = A, cl_reference = nextReference s\<rparr> s1 = []"
      using empty playableRepresentations_eq [of s1 "\<lparr>cl_trackInfo = A, cl_reference = nextReference s\<rparr>" s]
        same by simp
    note c = construct_empty [OF e1, of "trigger (Suc n)"]
    show ?thesis
    proof (cases "lr_value (lockedRefs s (ts_lockedRepresentations A))")
      case None
      let ?X = "(installed A s1)\<lparr>isSupported := (isSupported s1)(ts_adaptation A := False)\<rparr>"
      from None have ev: "ev = NoPlayableRepresentation" by (simp add: ev_def)
      have l: "filter (\<lambda>p. fst p = ev) (listeners ?X) = [(ev, [CallUpdateTrack B])]"
        using listener same by simp
      have t: "case B of None \<Rightarrow> lastEmitted ?X \<noteq> Null
         | Some b \<Rightarrow> playableRepresentations
             \<lparr>cl_trackInfo = b, cl_reference = Suc (nextReference s)\<rparr> ?X \<noteq> []"
      proof (cases B)
        case None
        with target same show ?thesis by simp
      next
        case (Some b)
        have "playableRepresentations \<lparr>cl_trackInfo = b, cl_reference = Suc (nextReference s)\<rparr> ?X =
          playableRepresentations \<lparr>cl_trackInfo = b, cl_reference = Suc (nextReference s)\<rparr> s"
          by (rule playableRepresentations_eq) (simp_all add: same)
        with target Some show ?thesis by simp
      qed
      from trigger_updateTrack_commits [OF l t, of n] obtain s' where
        "trigger (Suc n) ev ?X = Some s'" "\<not> updateToken s'"
        "adaptationRef s' = sr_setValue vB (adaptationRef s)" "lastEmitted s' = leB"
        using same by (auto simp: vB_def leB_def cong: option.case_cong)
      with c None ev same open_channel show ?thesis
        by (simp add: sr_setValue_def)
    next
      case (Some repSettings)
      let ?X = "installed A s1"
      from Some have ev: "ev = NoPlayableLockedRepresentation" by (simp add: ev_def)
      have l: "filter (\<lambda>p. fst p = ev) (listeners ?X) = [(ev, [CallUpdateTrack B])]"
        using listener same by simp
      have t: "case B of None \<Rightarrow> lastEmitted ?X \<noteq> Null
         | Some b \<Rightarrow> playableRepresentations
             \<lparr>cl_trackInfo = b, cl_reference = Suc (nextReference s)\<rparr> ?X \<noteq> []"
      proof (cases B)
        case None
        with target same show ?thesis by simp
      next
        case (Some b)
        have "playableRepresentations \<lparr>cl_trackInfo = b, cl_reference = Suc (nextReference s)\<rparr> ?X =
          playableRepresentations \<lparr>cl_trackInfo = b, cl_reference = Suc (nextReference s)\<rparr> s"
          by (rule playableRepresentations_eq) (simp_all add: same)
        with target Some show ?thesis by simp
      qed
      from trigger_updateTrack_commits [OF l t, of n] obtain s' where
        "trigger (Suc n) ev ?X = Some s'" "\<not> updateToken s'"
        "adaptationRef s' = sr_setValue vB (adaptationRef s)" "lastEmitted s' = leB"
        using same by (auto simp: vB_def leB_def cong: option.case_cong)
      with c Some ev same open_channel show ?thesis
        by (simp add: sr_setValue_def)
    qed
  qed
  let ?u = "(canceller_cancel (s\<lparr>updateToken := True\<rparr>))\<lparr>canceller := new_TaskCanceller\<rparr>"
  from inner [of ?u] obtain s' where
    "constructLockedRepresentationsReference (trigger (Suc n)) A ?u = Some (nextReference s, s')"
    "sr_value (adaptationRef s') = vB"
    "sr_published (adaptationRef s') = sr_published (adaptationRef s) @ [vB]"
    "lastEmitted s' = leB" "\<not> updateToken s'"
    by auto
  then have U: "\<exists>s'. updateTrack (trigger (Suc n)) (Some A) s = Some s' \<and>
            sr_value (adaptationRef s') = vB \<and>
            sr_published (adaptationRef s') = sr_published (adaptationRef s) @ [vB] \<and>
            lastEmitted s' = leB \<and> \<not> updateToken s'"
    by (simp add: updateTrack_def Let_def)
  let ?t = "s\<lparr>updateToken := True\<rparr>"
  from inner [of ?t] obtain s' where
    "constructLockedRepresentationsReference (trigger (Suc n)) A ?t = Some (nextReference s, s')"
    "sr_value (adaptationRef s') = vB"
    "sr_published (adaptationRef s') = sr_published (adaptationRef s) @ [vB]"
    "lastEmitted s' = leB" "\<not> updateToken s'"
    by auto
  then have S: "\<exists>s'. start (trigger (Suc n)) (Some A) s = Some s' \<and>
            sr_value (adaptationRef s') = vB \<and>
            sr_published (adaptationRef s') = sr_published (adaptationRef s) @ [vB] \<and>
            lastEmitted s' = leB \<and> \<not> updateToken s'"
    by (simp add: start_def Let_def)
  from U S show ?thesis by (rule conjI)
qed

text \<open>
  Two calls of \<^verbatim>\<open>updateTrack(null)\<close> in a row both return. With a null snapshot the
  call publishes nothing and changes no field but the update token, which it sets at
  line 126 and does not reset before the return of line 129. The first of the two calls
  publishes null when the snapshot was not null and the outward channel is not finished.
\<close>

lemma updateTrack_null_twice:
  "(lastEmitted s = Null \<longrightarrow> updateTrack trig None s = Some (s\<lparr>updateToken := True\<rparr>)) \<and>
   (\<exists>s1. updateTrack trig None s = Some s1 \<and>
      lastEmitted s1 = Null \<and>
      updateTrack trig' None s1 = Some (s1\<lparr>updateToken := True\<rparr>) \<and>
      sr_published (adaptationRef s1) =
        sr_published (adaptationRef s) @
          (if lastEmitted s \<noteq> Null \<and> \<not> sr_finished (adaptationRef s) then [Null] else []))"
proof (cases "lastEmitted s = Null")
  case True
  then have first: "updateTrack trig None s = Some (s\<lparr>updateToken := True\<rparr>)"
    by (simp add: updateTrack_def Let_def)
  from True have again: "updateTrack trig' None (s\<lparr>updateToken := True\<rparr>) =
      Some (s\<lparr>updateToken := True\<rparr>\<lparr>updateToken := True\<rparr>)"
    by (simp add: updateTrack_def Let_def)
  from True first again show ?thesis by simp
next
  case False
  let ?s1 = "adaptationRef_setValue Null
      ((canceller_cancel (s\<lparr>updateToken := False\<rparr>))
         \<lparr>canceller := new_TaskCanceller, lastEmitted := Null\<rparr>)"
  from False have first: "updateTrack trig None s = Some ?s1"
    by (simp add: updateTrack_def Let_def)
  have snapshot: "lastEmitted ?s1 = Null"
    by (simp add: adaptationRef_setValue_def)
  then have again: "updateTrack trig' None ?s1 = Some (?s1\<lparr>updateToken := True\<rparr>)"
    by (simp add: updateTrack_def Let_def)
  have log: "sr_published (adaptationRef ?s1) =
      sr_published (adaptationRef s) @ (if \<not> sr_finished (adaptationRef s) then [Null] else [])"
    by (simp add: adaptationRef_setValue_def sr_setValue_def)
  from False first snapshot again log show ?thesis by simp
qed

subsection \<open>Clean-ups and disposal\<close>

lemma run_cleanup_manifestListeners:
  "manifestListeners s = cleanup_listeners c @ M \<Longrightarrow> manifestListeners (run_cleanup c s) = M"
  by (cases c) (simp_all add: removeListeners_def manifest_removeEventListener_def unlisten_def)

lemma run_cleanup_subscribers:
  "lr_subscribers (lockedRefs s l) = cleanup_subscribers l c @ S \<Longrightarrow>
   lr_subscribers (lockedRefs (run_cleanup c s) l) = S"
  by (cases c) (auto simp: removeListeners_def manifest_removeEventListener_def unlisten_def)

lemma fold_run_cleanup_manifestListeners:
  "manifestListeners s = concat (map cleanup_listeners cs) @ M \<Longrightarrow>
   manifestListeners (fold run_cleanup cs s) = M"
proof (induction cs arbitrary: s)
  case Nil
  then show ?case by simp
next
  case (Cons c cs)
  from Cons.prems have "manifestListeners (run_cleanup c s) = concat (map cleanup_listeners cs) @ M"
    by (intro run_cleanup_manifestListeners) simp
  then show ?case using Cons.IH by simp
qed

lemma fold_run_cleanup_subscribers:
  "lr_subscribers (lockedRefs s l) = concat (map (cleanup_subscribers l) cs) @ S \<Longrightarrow>
   lr_subscribers (lockedRefs (fold run_cleanup cs s) l) = S"
proof (induction cs arbitrary: s)
  case Nil
  then show ?case by simp
next
  case (Cons c cs)
  from Cons.prems have "lr_subscribers (lockedRefs (run_cleanup c s) l) =
      concat (map (cleanup_subscribers l) cs) @ S"
    by (intro run_cleanup_subscribers) simp
  then show ?case using Cons.IH by simp
qed

lemma tracked_cancel:
  assumes "tracked s"
  shows "manifestListeners (canceller_cancel s) = []"
    and "lr_subscribers (lockedRefs (canceller_cancel s) l) = []"
    and "tc_cleanups (canceller (canceller_cancel s)) = []"
    and "tc_isCancelled (canceller (canceller_cancel s))"
proof -
  show "manifestListeners (canceller_cancel s) = []"
  proof (cases "tc_isCancelled (canceller s)")
    case True
    with assms show ?thesis by (simp add: canceller_cancel_def tracked_def)
  next
    case False
    have "manifestListeners (fold run_cleanup (tc_cleanups (canceller s))
        (s\<lparr>canceller := \<lparr>tc_isCancelled = True, tc_cleanups = []\<rparr>\<rparr>)) = []"
      by (rule fold_run_cleanup_manifestListeners) (use assms in \<open>simp add: tracked_def\<close>)
    with False show ?thesis by (simp add: canceller_cancel_def)
  qed
  show "lr_subscribers (lockedRefs (canceller_cancel s) l) = []"
  proof (cases "tc_isCancelled (canceller s)")
    case True
    with assms show ?thesis by (simp add: canceller_cancel_def tracked_def)
  next
    case False
    have "lr_subscribers (lockedRefs (fold run_cleanup (tc_cleanups (canceller s))
        (s\<lparr>canceller := \<lparr>tc_isCancelled = True, tc_cleanups = []\<rparr>\<rparr>)) l) = []"
      by (rule fold_run_cleanup_subscribers) (use assms in \<open>simp add: tracked_def\<close>)
    with False show ?thesis by (simp add: canceller_cancel_def)
  qed
  show "tc_cleanups (canceller (canceller_cancel s)) = []"
    using assms by (simp add: canceller_cancel_def tracked_def)
  show "tc_isCancelled (canceller (canceller_cancel s))"
    by (simp add: canceller_cancel_def)
qed

lemma tracked_installed:
  assumes "tracked s"
  shows "tracked (installed ti s)"
proof (cases "tc_isCancelled (canceller s)")
  case True
  with assms show ?thesis
    by (simp add: tracked_def installed_def Let_def lock_onUpdate_def signal_register_def
        manifest_addEventListener_def removeListeners_def manifest_removeEventListener_def
        unlisten_def)
next
  case False
  with assms show ?thesis
    by (simp add: tracked_def installed_def Let_def lock_onUpdate_def signal_register_def
        manifest_addEventListener_def)
qed

lemma tracked_closed: "world_closed tracked"
  unfolding world_closed_def
proof (intro conjI allI impI)
  fix s ti assume "tracked s"
  then show "tracked (installed ti s)" by (rule tracked_installed)
next
  fix s assume t: "tracked s"
  show "tracked (canceller_cancel s)"
    using tracked_cancel [OF t] by (simp add: tracked_def)
  show "tracked ((canceller_cancel s)\<lparr>canceller := new_TaskCanceller\<rparr>)"
    using tracked_cancel [OF t] by (simp add: tracked_def new_TaskCanceller_def)
qed (simp_all add: tracked_def reference_setValue_def adaptationRef_setValue_def)

lemma finished_closed:
  assumes "sr_finished a"
  shows "world_closed (\<lambda>s. adaptationRef s = a)"
  unfolding world_closed_def using assms
  by (auto simp: reference_setValue_def adaptationRef_setValue_def sr_setValue_def sr_finish_def)

subsection \<open>Evaluation on the example worlds\<close>

lemmas ex_defs = exR1_def exR2_def exR3_def exR4_def exR5_def ex_locks_def ex_world_def ex_setting_def
  ex_closure_def new_TrackDispatcher_def new_reference_def new_TaskCanceller_def

lemmas run_defs = start_def updateTrack_def constructLockedRepresentationsReference_def
  updateReferenceIfNeeded_def publishIfChanged_def reference_setValue_def adaptationRef_setValue_def
  manifest_addEventListener_def manifest_removeEventListener_def removeListeners_def unlisten_def
  signal_register_def canceller_cancel_def lock_onUpdate_def sr_setValue_def sr_finish_def
  dispose_def lock_setValue_def notify_subscriber_def manifest_trigger_def Let_def
  idDiffersFrom.simps playableRepresentations_def switchingModeOf_def all_published_def

lemma ex_recompute_0:
  "updateReferenceIfNeeded trig (ex_closure 0 0) ex_world =
     Some (reference_setValue 0
       \<lparr>rc_representations = [exR2, exR3, exR1], rc_switchingMode = ''lazy''\<rparr> ex_world)"
  by (simp add: ex_defs run_defs)

lemma manifest_listener_never_returns:
  "start (trigger n) (Some (ex_setting 0 2))
     (ex_listening NoPlayableLockedRepresentation [CallManifestTrigger ManifestUpdate]) = None"
proof -
  let ?w = "ex_listening NoPlayableLockedRepresentation [CallManifestTrigger ManifestUpdate]"
  let ?X = "installed (ex_setting 0 2) (?w\<lparr>updateToken := True\<rparr>)"
  note w_defs = ex_listening_def addEventListener_def ex_defs
  have empty: "playableRepresentations \<lparr>cl_trackInfo = ex_setting 0 2, cl_reference = 0\<rparr>
      (?w\<lparr>updateToken := True\<rparr>) = []"
    by (simp add: w_defs playableRepresentations_def)
  have lk: "lr_value (lockedRefs (?w\<lparr>updateToken := True\<rparr>) (ts_lockedRepresentations (ex_setting 0 2))) =
      Some \<lparr>rc_representations = [exR4], rc_switchingMode = ''seamless''\<rparr>"
    by (simp add: w_defs)
  have "trigger n NoPlayableLockedRepresentation ?X = None"
  proof (rule warning_manifest_loop)
    show "map snd (filter (\<lambda>p. fst p = NoPlayableLockedRepresentation) (listeners ?X)) =
        [[CallManifestTrigger ManifestUpdate]]"
      by (simp add: w_defs)
    show "map snd (filter (\<lambda>p. fst p = ManifestUpdate) (manifestListeners ?X)) =
        [\<lparr>cl_trackInfo = ex_setting 0 2, cl_reference = 0\<rparr>]"
      by (simp add: w_defs installed_def Let_def lock_onUpdate_def signal_register_def
          manifest_addEventListener_def)
    show "lr_value (lockedRefs ?X (ts_lockedRepresentations
            (cl_trackInfo \<lparr>cl_trackInfo = ex_setting 0 2, cl_reference = 0\<rparr>))) =
        Some \<lparr>rc_representations = [exR4], rc_switchingMode = ''seamless''\<rparr>"
      by (simp add: w_defs)
    show "filter (isPlayable ?X)
        (rc_representations \<lparr>rc_representations = [exR4], rc_switchingMode = ''seamless''\<rparr>) = []"
      by (simp add: w_defs)
  qed
  with lk show ?thesis
    by (simp add: start_def Let_def construct_empty [OF empty])
qed

section \<open>The claims\<close>

subsection \<open>Re-entrant updates\<close>

text \<open>
  Claim C1: in a re-entrant chain of calls to \<^verbatim>\<open>start\<close> and \<^verbatim>\<open>updateTrack\<close>, where
  the sub-channel construction of an outer \<^verbatim>\<open>updateTrack(A)\<close> synchronously runs an inner
  \<^verbatim>\<open>updateTrack(B)\<close>, only the innermost call whose update token is still set at commit
  time writes the snapshot and publishes; after both calls the outward channel reflects
  B, and no stale publish of A follows.

  The code breaks this when the last inner call is \<^verbatim>\<open>updateTrack(null)\<close> on a snapshot
  that is already null: line 126 sets the update token and the return of line 129 leaves
  it set, where every other path resets it before it ends (lines 102, 131 and 148). The
  outer call then passes the test of line 144 and commits A. The theorem evaluates the
  code on the example world, in which the Adaptation 1 of A has no playable
  Representation and the listener of \<^verbatim>\<open>noPlayableRepresentation\<close> makes the inner calls:
  \<^item> after \<^verbatim>\<open>start(null)\<close> the snapshot is null and the token reset;
  \<^item> then, with the inner call \<^verbatim>\<open>updateTrack(null)\<close>, the outer \<^verbatim>\<open>updateTrack(A)\<close>
    publishes A after the inner call, and the channel ends on A;
  \<^item> on a new dispatcher, with the inner calls \<^verbatim>\<open>updateTrack(B)\<close>, \<^verbatim>\<open>updateTrack(null)\<close>,
    the last of which commits, the outer call publishes nothing: the channel receives
    B, then null;
  \<^item> with one more inner \<^verbatim>\<open>updateTrack(null)\<close>, the outer call publishes A after them:
    the channel receives B, null, then the stale A.
\<close>

theorem reentrant_null_update_is_overwritten:
  "map_option token_view
     (start (trigger (Suc 0)) None
        (ex_listening NoPlayableRepresentation [CallUpdateTrack None])) = Some (Null, False) \<and>
   map_option outward_view
     (Option.bind
        (start (trigger (Suc 0)) None
           (ex_listening NoPlayableRepresentation [CallUpdateTrack None]))
        (updateTrack (trigger (Suc (Suc 0))) (Some (ex_setting 1 0)))) =
   Some (Val \<lparr>ac_adaptation = 1, ac_switchingMode = ''seamless'', ac_representations = 0,
              ac_relativeResumingPosition = Some 7\<rparr>,
         [Null,
          Val \<lparr>ac_adaptation = 1, ac_switchingMode = ''seamless'', ac_representations = 0,
               ac_relativeResumingPosition = Some 7\<rparr>],
         [NoPlayableRepresentation]) \<and>
   map_option outward_view
     (updateTrack (trigger (Suc (Suc 0))) (Some (ex_setting 1 0))
        (ex_listening NoPlayableRepresentation
           [CallUpdateTrack (Some (ex_setting 0 0)), CallUpdateTrack None])) =
   Some (Null,
         [Val \<lparr>ac_adaptation = 0, ac_switchingMode = ''seamless'', ac_representations = 1,
               ac_relativeResumingPosition = Some 7\<rparr>,
          Null],
         [NoPlayableRepresentation]) \<and>
   map_option outward_view
     (updateTrack (trigger (Suc (Suc 0))) (Some (ex_setting 1 0))
        (ex_listening NoPlayableRepresentation
           [CallUpdateTrack (Some (ex_setting 0 0)), CallUpdateTrack None, CallUpdateTrack None])) =
   Some (Val \<lparr>ac_adaptation = 1, ac_switchingMode = ''seamless'', ac_representations = 0,
              ac_relativeResumingPosition = Some 7\<rparr>,
         [Val \<lparr>ac_adaptation = 0, ac_switchingMode = ''seamless'', ac_representations = 1,
               ac_relativeResumingPosition = Some 7\<rparr>,
          Null,
          Val \<lparr>ac_adaptation = 1, ac_switchingMode = ''seamless'', ac_representations = 0,
               ac_relativeResumingPosition = Some 7\<rparr>],
         [NoPlayableRepresentation])"
  by (intro conjI; code_simp)

subsection \<open>No empty list is published\<close>

text \<open>
  Claim C2. A recompute whose candidate set is empty does nothing but send a warning
  event (\<^verbatim>\<open>noPlayableRepresentation\<close> after clearing \<^verbatim>\<open>isSupported\<close> when nothing is
  locked, \<^verbatim>\<open>noPlayableLockedRepresentation\<close> otherwise): it does not write the
  sub-channel. A recompute whose candidate set is not empty either leaves the world as
  it is or calls \<^verbatim>\<open>setValue\<close> once, with a list that is not empty. Hence no call of
  the dispatcher, lock update or manifest event, whatever the listeners do, ever adds
  an empty list to the values published on a sub-channel.
\<close>

theorem recompute_never_publishes_empty:
  "(playableRepresentations f s = [] \<longrightarrow>
      updateReferenceIfNeeded trig f s =
        (case lr_value (lockedRefs s (ts_lockedRepresentations (cl_trackInfo f))) of
           None \<Rightarrow> trig NoPlayableRepresentation
                     (s\<lparr>isSupported := (isSupported s)(ts_adaptation (cl_trackInfo f) := False)\<rparr>)
         | Some repSettings \<Rightarrow> trig NoPlayableLockedRepresentation s)) \<and>
   (playableRepresentations f s \<noteq> [] \<longrightarrow>
      sort_key bitrate (playableRepresentations f s) \<noteq> [] \<and>
      (updateReferenceIfNeeded trig f s = Some s \<or>
       updateReferenceIfNeeded trig f s =
         Some (reference_setValue (cl_reference f)
                 \<lparr>rc_representations = sort_key bitrate (playableRepresentations f s),
                  rc_switchingMode = switchingModeOf f s\<rparr> s))) \<and>
   (all_published (\<lambda>v. rc_representations v \<noteq> []) s \<longrightarrow>
      (\<forall>s'. updateReferenceIfNeeded (trigger n) f s = Some s' \<longrightarrow>
            all_published (\<lambda>v. rc_representations v \<noteq> []) s') \<and>
      (\<forall>c s'. run_call (trigger n) c s = Some s' \<longrightarrow>
            all_published (\<lambda>v. rc_representations v \<noteq> []) s'))"
proof -
  let ?P = "\<lambda>v. rc_representations v \<noteq> []"
  have sortP: "?P \<lparr>rc_representations = sort_key bitrate xs, rc_switchingMode = m\<rparr>"
    if "xs \<noteq> []" for xs :: "representation list" and m
    using that by (rule nonempty_choice)
  have empty: "updateReferenceIfNeeded trig f s =
        (case lr_value (lockedRefs s (ts_lockedRepresentations (cl_trackInfo f))) of
           None \<Rightarrow> trig NoPlayableRepresentation
                     (s\<lparr>isSupported := (isSupported s)(ts_adaptation (cl_trackInfo f) := False)\<rparr>)
         | Some repSettings \<Rightarrow> trig NoPlayableLockedRepresentation s)"
    if "playableRepresentations f s = []"
    using that
    by (simp add: updateReferenceIfNeeded_def playableRepresentations_def publishIfChanged_empty
        split: option.splits)
  have nonempty: "sort_key bitrate (playableRepresentations f s) \<noteq> [] \<and>
      (updateReferenceIfNeeded trig f s = Some s \<or>
       updateReferenceIfNeeded trig f s =
         Some (reference_setValue (cl_reference f)
                 \<lparr>rc_representations = sort_key bitrate (playableRepresentations f s),
                  rc_switchingMode = switchingModeOf f s\<rparr> s))"
    if ne: "playableRepresentations f s \<noteq> []"
  proof -
    from ne have "sort_key bitrate (playableRepresentations f s) \<noteq> []"
      by (metis length_sort length_0_conv)
    then show ?thesis using updateReferenceIfNeeded_nonempty [OF ne, of trig] by auto
  qed
  have inv1: "all_published ?P s'"
    if "all_published ?P s" "updateReferenceIfNeeded (trigger n) f s = Some s'" for s'
    by (rule all_published_recompute [where P = ?P, OF _ that]) (rule sortP)
  have inv2: "all_published ?P s'"
    if "all_published ?P s" "run_call (trigger n) c s = Some s'" for c s'
    by (rule all_published_run_call [where P = ?P, OF _ that]) (rule sortP)
  from empty nonempty inv1 inv2 show ?thesis by blast
qed

theorem recompute_never_publishes_empty_witness:
  "playableRepresentations (ex_closure 1 0) ex_world = [] \<and>
   map_option (subchannel_view 1 0)
     (updateReferenceIfNeeded (trigger (Suc 0)) (ex_closure 1 0) ex_world) =
     Some (False, [NoPlayableRepresentation],
           \<lparr>rc_representations = [], rc_switchingMode = ''lazy''\<rparr>, []) \<and>
   playableRepresentations (ex_closure 0 1) ex_world = [exR2] \<and>
   updateReferenceIfNeeded (trigger 0) (ex_closure 0 1) ex_world =
     Some (reference_setValue 0 \<lparr>rc_representations = [exR2], rc_switchingMode = ''reload''\<rparr> ex_world) \<and>
   all_published (\<lambda>v. rc_representations v \<noteq> []) ex_world \<and>
   (\<exists>s'. run_call (trigger (Suc 0)) (CallStart (Some (ex_setting 0 1))) ex_world = Some s' \<and>
      sr_published (references s' 0) = [\<lparr>rc_representations = [exR2], rc_switchingMode = ''reload''\<rparr>] \<and>
      all_published (\<lambda>v. rc_representations v \<noteq> []) s')"
proof -
  let ?P = "\<lambda>v. rc_representations v \<noteq> []"
  note c2a = recompute_never_publishes_empty [of "ex_closure 1 0" ex_world "trigger (Suc 0)" 0]
  note c2b = recompute_never_publishes_empty [of "ex_closure 0 1" ex_world "trigger 0" "Suc 0"]
  have e: "playableRepresentations (ex_closure 1 0) ex_world = []" by (simp add: ex_defs run_defs)
  with c2a have a: "map_option (subchannel_view 1 0)
     (updateReferenceIfNeeded (trigger (Suc 0)) (ex_closure 1 0) ex_world) =
     Some (False, [NoPlayableRepresentation],
           \<lparr>rc_representations = [], rc_switchingMode = ''lazy''\<rparr>, [])"
    by (simp add: ex_defs subchannel_view_def)
  have ne: "playableRepresentations (ex_closure 0 1) ex_world = [exR2]" by (simp add: ex_defs run_defs)
  have b: "updateReferenceIfNeeded (trigger 0) (ex_closure 0 1) ex_world =
     Some (reference_setValue 0 \<lparr>rc_representations = [exR2], rc_switchingMode = ''reload''\<rparr> ex_world)"
    by (simp add: ex_defs run_defs)
  have inv0: "all_published ?P ex_world" by (simp add: ex_defs run_defs)
  obtain s' where run: "run_call (trigger (Suc 0)) (CallStart (Some (ex_setting 0 1))) ex_world = Some s'"
    and log: "sr_published (references s' 0) = [\<lparr>rc_representations = [exR2], rc_switchingMode = ''reload''\<rparr>]"
    by (simp add: ex_defs run_defs)
  from c2b inv0 run have inv1: "all_published ?P s'" by blast
  have ex: "\<exists>s'. run_call (trigger (Suc 0)) (CallStart (Some (ex_setting 0 1))) ex_world = Some s' \<and>
      sr_published (references s' 0) = [\<lparr>rc_representations = [exR2], rc_switchingMode = ''reload''\<rparr>] \<and>
      all_published ?P s'"
    using run log inv1 by (intro exI [of _ s'] conjI)
  from e a ne b inv0 ex show ?thesis by (intro conjI)
qed

subsection \<open>Change detection\<close>

text \<open>
  Claim C3. A recompute with a non-empty candidate set publishes the sorted candidates
  exactly when they differ from the current value of the sub-channel in length or in
  the id at some position; otherwise it publishes nothing. On a channel that is not
  finished the log of the published values grows by that one value or not at all, and
  a later recompute whose sorted candidates have the same sequence of ids, on a world
  where the channel still holds this value, publishes nothing.
\<close>

theorem recompute_publishes_iff_ids_differ:
  fixes f s
  defines "r \<equiv> cl_reference f"
    and "sortedReps \<equiv> sort_key bitrate (playableRepresentations f s)"
    and "oldReps \<equiv> rc_representations (sr_value (references s (cl_reference f)))"
    and "changed \<equiv> length (sort_key bitrate (playableRepresentations f s)) \<noteq>
             length (rc_representations (sr_value (references s (cl_reference f)))) \<or>
           (\<exists>i<length (sort_key bitrate (playableRepresentations f s)).
              rep_id (rc_representations (sr_value (references s (cl_reference f))) ! i) \<noteq>
              rep_id (sort_key bitrate (playableRepresentations f s) ! i))"
  assumes nonempty: "playableRepresentations f s \<noteq> []"
  shows "updateReferenceIfNeeded trig f s =
           Some (if changed
                 then reference_setValue r
                        \<lparr>rc_representations = sortedReps, rc_switchingMode = switchingModeOf f s\<rparr> s
                 else s) \<and>
         (\<not> sr_finished (references s r) \<longrightarrow>
            (\<forall>s1. updateReferenceIfNeeded trig f s = Some s1 \<longrightarrow>
               sr_published (references s1 r) =
                 sr_published (references s r) @
                   (if changed
                    then [\<lparr>rc_representations = sortedReps, rc_switchingMode = switchingModeOf f s\<rparr>]
                    else []) \<and>
               (\<forall>s2. references s2 r = references s1 r \<and> playableRepresentations f s2 \<noteq> [] \<and>
                     map rep_id (sort_key bitrate (playableRepresentations f s2)) = map rep_id sortedReps \<longrightarrow>
                     updateReferenceIfNeeded trig' f s2 = Some s2)))"
proof -
  have ch: "changed \<longleftrightarrow> map rep_id oldReps \<noteq> map rep_id sortedReps"
    unfolding changed_def oldReps_def sortedReps_def by (simp add: ids_differ_iff)
  have eq: "updateReferenceIfNeeded trig f s =
           Some (if changed
                 then reference_setValue r
                        \<lparr>rc_representations = sortedReps, rc_switchingMode = switchingModeOf f s\<rparr> s
                 else s)"
    using updateReferenceIfNeeded_nonempty [OF nonempty, of trig] ch
    unfolding oldReps_def sortedReps_def r_def by simp
  have rest: "updateReferenceIfNeeded trig' f s2 = Some s2"
    if nf: "\<not> sr_finished (references s r)" and s1: "updateReferenceIfNeeded trig f s = Some s1"
      and s2: "references s2 r = references s1 r" "playableRepresentations f s2 \<noteq> []"
        "map rep_id (sort_key bitrate (playableRepresentations f s2)) = map rep_id sortedReps"
    for s1 s2
  proof -
    from eq s1 nf have "map rep_id (rc_representations (sr_value (references s1 r))) = map rep_id sortedReps"
      using ch by (auto simp: reference_setValue_def sr_setValue_def oldReps_def r_def split: if_splits)
    with s2 show ?thesis
      using updateReferenceIfNeeded_nonempty [OF s2(2), of trig'] by (simp add: r_def)
  qed
  have log: "sr_published (references s1 r) =
                 sr_published (references s r) @
                   (if changed
                    then [\<lparr>rc_representations = sortedReps, rc_switchingMode = switchingModeOf f s\<rparr>]
                    else [])"
    if "\<not> sr_finished (references s r)" "updateReferenceIfNeeded trig f s = Some s1" for s1
    using that eq by (auto simp: reference_setValue_def sr_setValue_def split: if_splits)
  from eq rest log show ?thesis by blast
qed

theorem recompute_publishes_iff_ids_differ_witness:
  "playableRepresentations (ex_closure 0 0) ex_world \<noteq> [] \<and>
   \<not> sr_finished (references ex_world 0) \<and>
   (\<exists>s1. updateReferenceIfNeeded (trigger 0) (ex_closure 0 0) ex_world = Some s1 \<and>
         sr_published (references s1 0) =
           [\<lparr>rc_representations = [exR2, exR3, exR1], rc_switchingMode = ''lazy''\<rparr>] \<and>
         updateReferenceIfNeeded (trigger 0) (ex_closure 0 0) s1 = Some s1)"
proof -
  have h: "playableRepresentations (ex_closure 0 0) ex_world \<noteq> []"
    by (simp add: ex_defs run_defs)
  have nf: "\<not> sr_finished (references ex_world (cl_reference (ex_closure 0 0)))"
    by (simp add: ex_defs)
  let ?s1 = "reference_setValue 0
       \<lparr>rc_representations = [exR2, exR3, exR1], rc_switchingMode = ''lazy''\<rparr> ex_world"
  have s1: "updateReferenceIfNeeded (trigger 0) (ex_closure 0 0) ex_world = Some ?s1"
    by (rule ex_recompute_0)
  have same: "playableRepresentations (ex_closure 0 0) ?s1 \<noteq> [] \<and>
      map rep_id (sort_key bitrate (playableRepresentations (ex_closure 0 0) ?s1)) =
      map rep_id (sort_key bitrate (playableRepresentations (ex_closure 0 0) ex_world))"
    by (simp add: ex_defs run_defs)
  from recompute_publishes_iff_ids_differ [OF h, of "trigger 0" "trigger 0"] nf s1 same
  have "updateReferenceIfNeeded (trigger 0) (ex_closure 0 0) ?s1 = Some ?s1" by blast
  moreover have "sr_published (references ?s1 0) =
           [\<lparr>rc_representations = [exR2, exR3, exR1], rc_switchingMode = ''lazy''\<rparr>]"
    by (simp add: ex_defs run_defs)
  moreover have "\<not> sr_finished (references ex_world 0)" by (simp add: ex_defs)
  ultimately show ?thesis using h s1 by blast
qed

subsection \<open>Order of the published Representations\<close>

text \<open>
  Claim C4. Whenever a recompute publishes, the published list is the candidates sorted
  by ascending bitrate: it is sorted, it is a permutation of the candidates, and
  candidates of equal bitrate keep their relative order. Every call of the dispatcher,
  lock update and manifest event keeps all published lists of all sub-channels sorted.
\<close>

theorem published_representations_sorted_stable:
  assumes nonempty: "playableRepresentations f s \<noteq> []"
    and run: "updateReferenceIfNeeded trig f s = Some s'"
    and published: "sr_published (references s' (cl_reference f)) \<noteq>
                    sr_published (references s (cl_reference f))"
  shows "sr_published (references s' (cl_reference f)) =
           sr_published (references s (cl_reference f)) @
             [\<lparr>rc_representations = sort_key bitrate (playableRepresentations f s),
               rc_switchingMode = switchingModeOf f s\<rparr>] \<and>
         sorted (map bitrate (rc_representations (last (sr_published (references s' (cl_reference f)))))) \<and>
         mset (rc_representations (last (sr_published (references s' (cl_reference f))))) =
           mset (playableRepresentations f s) \<and>
         (\<forall>k. filter (\<lambda>x. bitrate x = k)
                 (rc_representations (last (sr_published (references s' (cl_reference f))))) =
               filter (\<lambda>x. bitrate x = k) (playableRepresentations f s)) \<and>
         (all_published (\<lambda>v. sorted (map bitrate (rc_representations v))) s \<longrightarrow>
            (\<forall>c s''. run_call (trigger n) c s = Some s'' \<longrightarrow>
               all_published (\<lambda>v. sorted (map bitrate (rc_representations v))) s''))"
proof -
  let ?v = "\<lparr>rc_representations = sort_key bitrate (playableRepresentations f s),
               rc_switchingMode = switchingModeOf f s\<rparr>"
  from run published have log: "sr_published (references s' (cl_reference f)) =
      sr_published (references s (cl_reference f)) @ [?v]"
    by (auto simp: updateReferenceIfNeeded_nonempty [OF nonempty] reference_setValue_def
        sr_setValue_def split: if_splits)
  then have last: "last (sr_published (references s' (cl_reference f))) = ?v" by simp
  let ?P = "\<lambda>v. sorted (map bitrate (rc_representations v))"
  have inv: "all_published ?P s''" if "all_published ?P s" "run_call (trigger n) c s = Some s''" for c s''
    by (rule all_published_run_call [where P = ?P, OF _ that]) simp
  show ?thesis
    unfolding last using log inv by (simp add: sort_key_stable)
qed

theorem published_representations_sorted_stable_witness:
  "playableRepresentations (ex_closure 2 0) ex_world = [exR5, exR1, exR3, exR2] \<and>
   map bitrate [exR5, exR1, exR3, exR2] = [3, 5, 3, 1] \<and>
   (\<exists>s'. updateReferenceIfNeeded (trigger 0) (ex_closure 2 0) ex_world = Some s' \<and>
      sr_published (references ex_world 0) = [] \<and>
      sr_published (references s' 0) =
        [\<lparr>rc_representations = [exR2, exR5, exR3, exR1], rc_switchingMode = ''lazy''\<rparr>] \<and>
      sorted (map bitrate (rc_representations (last (sr_published (references s' 0)))))) \<and>
   all_published (\<lambda>v. sorted (map bitrate (rc_representations v))) ex_world \<and>
   (\<exists>s''. run_call (trigger (Suc 0)) (CallStart (Some (ex_setting 0 0))) ex_world = Some s'' \<and>
      map (map bitrate \<circ> rc_representations) (sr_published (references s'' 0)) = [[1, 3, 5]] \<and>
      all_published (\<lambda>v. sorted (map bitrate (rc_representations v))) s'')"
proof -
  let ?f = "ex_closure 2 0"
  let ?s' = "reference_setValue 0
      \<lparr>rc_representations = [exR2, exR5, exR3, exR1], rc_switchingMode = ''lazy''\<rparr> ex_world"
  let ?P = "\<lambda>v. sorted (map bitrate (rc_representations v))"
  have cands: "playableRepresentations ?f ex_world = [exR5, exR1, exR3, exR2]"
    by (simp add: ex_defs run_defs)
  then have h1: "playableRepresentations ?f ex_world \<noteq> []" by simp
  have h2: "updateReferenceIfNeeded (trigger 0) ?f ex_world = Some ?s'"
    by (simp add: ex_defs run_defs)
  have old: "sr_published (references ex_world 0) = []" by (simp add: ex_defs)
  have new: "sr_published (references ?s' 0) =
      [\<lparr>rc_representations = [exR2, exR5, exR3, exR1], rc_switchingMode = ''lazy''\<rparr>]"
    by (simp add: ex_defs run_defs)
  have h3: "sr_published (references ?s' (cl_reference ?f)) \<noteq>
      sr_published (references ex_world (cl_reference ?f))"
    by (simp add: ex_defs run_defs)
  have inv0: "all_published ?P ex_world" by (simp add: ex_defs run_defs)
  obtain s'' where run: "run_call (trigger (Suc 0)) (CallStart (Some (ex_setting 0 0))) ex_world = Some s''"
    and log: "map (map bitrate \<circ> rc_representations) (sr_published (references s'' 0)) = [[1, 3, 5]]"
    by (simp add: ex_defs run_defs)
  note c4 = published_representations_sorted_stable [OF h1 h2 h3, of "Suc 0"]
  from c4 have "sorted (map bitrate (rc_representations (last (sr_published (references ?s' 0)))))"
    by (simp add: ex_defs)
  moreover from c4 inv0 run have "all_published ?P s''" by blast
  moreover have "map bitrate [exR5, exR1, exR3, exR2] = [3, 5, 3, 1]" by (simp add: ex_defs)
  ultimately have srt: "sorted (map bitrate (rc_representations (last (sr_published (references ?s' 0)))))"
    and inv1: "all_published ?P s''" and br: "map bitrate [exR5, exR1, exR3, exR2] = [3, 5, 3, 1]"
    by blast+
  have e1: "\<exists>s'. updateReferenceIfNeeded (trigger 0) (ex_closure 2 0) ex_world = Some s' \<and>
      sr_published (references ex_world 0) = [] \<and>
      sr_published (references s' 0) =
        [\<lparr>rc_representations = [exR2, exR5, exR3, exR1], rc_switchingMode = ''lazy''\<rparr>] \<and>
      sorted (map bitrate (rc_representations (last (sr_published (references s' 0)))))"
    using h2 old new srt by (intro exI [of _ ?s'] conjI)
  have e2: "\<exists>s''. run_call (trigger (Suc 0)) (CallStart (Some (ex_setting 0 0))) ex_world = Some s'' \<and>
      map (map bitrate \<circ> rc_representations) (sr_published (references s'' 0)) = [[1, 3, 5]] \<and>
      all_published (\<lambda>v. sorted (map bitrate (rc_representations v))) s''"
    using run log inv1 by (intro exI [of _ s''] conjI)
  from cands br e1 inv0 e2 show ?thesis by (intro conjI)
qed

subsection \<open>No playable Representation\<close>




subsection \<open>No playable locked Representation\<close>



subsection \<open>Idempotence of the null track\<close>

text \<open>
  Claim C7: \<^verbatim>\<open>updateTrack(null)\<close> is idempotent. When the last emitted snapshot is
  already null a further \<^verbatim>\<open>updateTrack(null)\<close> is a no-op, and two calls in a row publish
  null exactly once on the outward channel.

  The code breaks the first part: the further call sets the update token at line 126
  and returns at line 129 without resetting it, as the other paths do (lines 102, 131
  and 148). The theorem evaluates the code on the example world:
  \<^item> after \<^verbatim>\<open>start\<close> with the track of the Adaptation 0, a first \<^verbatim>\<open>updateTrack(null)\<close>
    publishes null and leaves the snapshot null and the token reset;
  \<^item> the further \<^verbatim>\<open>updateTrack(null)\<close> publishes nothing, so that the two calls published
    null once, but it leaves the token set: the dispatcher is not as it was;
  \<^item> the difference shows on the outward channel when the calls are made by a listener
    of \<^verbatim>\<open>noPlayableRepresentation\<close> during an outer \<^verbatim>\<open>updateTrack(A)\<close>, A being the
    Adaptation 1 with no playable Representation. With one \<^verbatim>\<open>updateTrack(null)\<close> the
    outer call is abandoned and the channel ends on null; with the further one the
    outer call commits, and the channel ends on A.
\<close>

theorem further_null_update_rearms_token:
  "map_option outward_view
     (Option.bind (start (trigger (Suc 0)) (Some (ex_setting 0 0)) ex_world)
        (updateTrack (trigger (Suc 0)) None)) =
   Some (Null,
         [Val \<lparr>ac_adaptation = 0, ac_switchingMode = ''seamless'', ac_representations = 0,
               ac_relativeResumingPosition = None\<rparr>,
          Null],
         []) \<and>
   map_option token_view
     (Option.bind (start (trigger (Suc 0)) (Some (ex_setting 0 0)) ex_world)
        (updateTrack (trigger (Suc 0)) None)) = Some (Null, False) \<and>
   map_option outward_view
     (Option.bind
        (Option.bind (start (trigger (Suc 0)) (Some (ex_setting 0 0)) ex_world)
           (updateTrack (trigger (Suc 0)) None))
        (updateTrack (trigger (Suc 0)) None)) =
   Some (Null,
         [Val \<lparr>ac_adaptation = 0, ac_switchingMode = ''seamless'', ac_representations = 0,
               ac_relativeResumingPosition = None\<rparr>,
          Null],
         []) \<and>
   map_option token_view
     (Option.bind
        (Option.bind (start (trigger (Suc 0)) (Some (ex_setting 0 0)) ex_world)
           (updateTrack (trigger (Suc 0)) None))
        (updateTrack (trigger (Suc 0)) None)) = Some (Null, True) \<and>
   map_option outward_view
     (Option.bind
        (start (trigger (Suc 0)) (Some (ex_setting 0 0))
           (ex_listening NoPlayableRepresentation [CallUpdateTrack None]))
        (updateTrack (trigger (Suc (Suc 0))) (Some (ex_setting 1 0)))) =
   Some (Null,
         [Val \<lparr>ac_adaptation = 0, ac_switchingMode = ''seamless'', ac_representations = 0,
               ac_relativeResumingPosition = None\<rparr>,
          Null],
         [NoPlayableRepresentation]) \<and>
   map_option outward_view
     (Option.bind
        (start (trigger (Suc 0)) (Some (ex_setting 0 0))
           (ex_listening NoPlayableRepresentation [CallUpdateTrack None, CallUpdateTrack None]))
        (updateTrack (trigger (Suc (Suc 0))) (Some (ex_setting 1 0)))) =
   Some (Val \<lparr>ac_adaptation = 1, ac_switchingMode = ''seamless'', ac_representations = 1,
              ac_relativeResumingPosition = Some 7\<rparr>,
         [Val \<lparr>ac_adaptation = 0, ac_switchingMode = ''seamless'', ac_representations = 0,
               ac_relativeResumingPosition = None\<rparr>,
          Null,
          Val \<lparr>ac_adaptation = 1, ac_switchingMode = ''seamless'', ac_representations = 1,
               ac_relativeResumingPosition = Some 7\<rparr>],
         [NoPlayableRepresentation])"
  by (intro conjI; code_simp)

subsection \<open>Locking and unlocking\<close>

text \<open>
  Claim C8, as stated, fails when the playable locked Representations have the same
  sequence of ids as the playable Representations of the Adaptation: the unlock is then
  no change and the sub-channel keeps the value published under the lock, with the
  switching mode of the lock. Below, the Adaptation has three playable Representations;
  the dispatcher is started with one of them locked, the lock is updated to all three
  with the mode \<^verbatim>\<open>"reload"\<close>, then to null: the sub-channel still holds \<^verbatim>\<open>"reload"\<close>.
\<close>

theorem unlock_keeps_reload_mode:
  "getPlayableRepresentations ex_world 0 = [exR1, exR2, exR3] \<and>
   map_option (lock_view 1)
     (Option.bind
        (Option.bind (start (trigger (Suc 0)) (Some (ex_setting 0 1)) ex_world)
           (lock_setValue (trigger (Suc 0)) 1
              (Some \<lparr>rc_representations = [exR1, exR2, exR3], rc_switchingMode = ''reload''\<rparr>)))
        (lock_setValue (trigger (Suc 0)) 1 None)) = Some None \<and>
   map_option (subchannel_view 0 0)
     (Option.bind
        (Option.bind (start (trigger (Suc 0)) (Some (ex_setting 0 1)) ex_world)
           (lock_setValue (trigger (Suc 0)) 1
              (Some \<lparr>rc_representations = [exR1, exR2, exR3], rc_switchingMode = ''reload''\<rparr>)))
        (lock_setValue (trigger (Suc 0)) 1 None)) =
   Some (True, [],
         \<lparr>rc_representations = [exR2, exR3, exR1], rc_switchingMode = ''reload''\<rparr>,
         [\<lparr>rc_representations = [exR2], rc_switchingMode = ''reload''\<rparr>,
          \<lparr>rc_representations = [exR2, exR3, exR1], rc_switchingMode = ''reload''\<rparr>])"
  by (simp add: ex_defs run_defs lock_view_def subchannel_view_def)

text \<open>
  Claim C8, amended. When the lock of a sub-channel (the only subscriber of the lock,
  not finished) is updated to null and the Adaptation has a playable Representation,
  the update returns and the sub-channel then holds a list with the ids of the playable
  Representations of the Adaptation sorted by ascending bitrate. If the ids of the list
  it held before differ from these (as when their number differs), it holds exactly
  these Representations, sorted, with the mode \<^verbatim>\<open>"lazy"\<close>; if not, it keeps the value it
  held, switching mode included.
\<close>

theorem unlock_restores_playable_ids:
  fixes f s
  defines "full \<equiv> sort_key bitrate (getPlayableRepresentations s (ts_adaptation (cl_trackInfo f)))"
    and "held \<equiv> sr_value (references s (cl_reference f))"
  assumes subs: "lr_subscribers (lockedRefs s l) = [f]"
    and lock: "ts_lockedRepresentations (cl_trackInfo f) = l"
    and playable: "getPlayableRepresentations s (ts_adaptation (cl_trackInfo f)) \<noteq> []"
    and open_channel: "\<not> sr_finished (references s (cl_reference f))"
  shows "\<exists>s'. lock_setValue trig l None s = Some s' \<and>
           map rep_id (rc_representations (sr_value (references s' (cl_reference f)))) =
             map rep_id full \<and>
           sr_value (references s' (cl_reference f)) =
             (if map rep_id (rc_representations held) \<noteq> map rep_id full
              then \<lparr>rc_representations = full, rc_switchingMode = ''lazy''\<rparr>
              else held) \<and>
           (length (rc_representations held) \<noteq>
              length (getPlayableRepresentations s (ts_adaptation (cl_trackInfo f))) \<longrightarrow>
            sr_value (references s' (cl_reference f)) =
              \<lparr>rc_representations = full, rc_switchingMode = ''lazy''\<rparr>)"
proof -
  let ?s = "s\<lparr>lockedRefs := (lockedRefs s)(l := (lockedRefs s l)\<lparr>lr_value := None\<rparr>)\<rparr>"
  have pl: "playableRepresentations f ?s = getPlayableRepresentations s (ts_adaptation (cl_trackInfo f))"
    using lock by (simp add: playableRepresentations_def)
  with playable have ne: "playableRepresentations f ?s \<noteq> []" by simp
  have mode: "switchingModeOf f ?s = ''lazy''"
    using lock by (simp add: switchingModeOf_def)
  have run: "lock_setValue trig l None s = updateReferenceIfNeeded trig f ?s"
    using subs by (simp add: lock_setValue_def notify_subscriber_def split: option.splits)
  have len: "map rep_id (rc_representations held) \<noteq> map rep_id full"
    if "length (rc_representations held) \<noteq>
        length (getPlayableRepresentations s (ts_adaptation (cl_trackInfo f)))"
    using that by (metis full_def length_map length_sort)
  show ?thesis
    unfolding run updateReferenceIfNeeded_nonempty [OF ne] pl mode
    using open_channel len
    by (auto simp: full_def held_def reference_setValue_def sr_setValue_def)
qed

theorem unlock_restores_playable_ids_witness:
  "\<exists>s1. start (trigger (Suc 0)) (Some (ex_setting 0 1)) ex_world = Some s1 \<and>
      lr_subscribers (lockedRefs s1 1) = [ex_closure 0 1] \<and>
      ts_lockedRepresentations (cl_trackInfo (ex_closure 0 1)) = 1 \<and>
      getPlayableRepresentations s1 (ts_adaptation (cl_trackInfo (ex_closure 0 1))) = [exR1, exR2, exR3] \<and>
      \<not> sr_finished (references s1 (cl_reference (ex_closure 0 1))) \<and>
      sr_value (references s1 0) = \<lparr>rc_representations = [exR2], rc_switchingMode = ''reload''\<rparr> \<and>
      (\<exists>s'. lock_setValue (trigger (Suc 0)) 1 None s1 = Some s' \<and>
         sr_value (references s' 0) =
           \<lparr>rc_representations = [exR2, exR3, exR1], rc_switchingMode = ''lazy''\<rparr>)"
proof -
  obtain s1 where s1: "start (trigger (Suc 0)) (Some (ex_setting 0 1)) ex_world = Some s1"
    and subs: "lr_subscribers (lockedRefs s1 1) = [ex_closure 0 1]"
    and pl: "getPlayableRepresentations s1 (ts_adaptation (cl_trackInfo (ex_closure 0 1))) = [exR1, exR2, exR3]"
    and nf: "\<not> sr_finished (references s1 (cl_reference (ex_closure 0 1)))"
    and held: "sr_value (references s1 0) = \<lparr>rc_representations = [exR2], rc_switchingMode = ''reload''\<rparr>"
    by (simp add: ex_defs run_defs)
  have lk: "ts_lockedRepresentations (cl_trackInfo (ex_closure 0 1)) = 1" by (simp add: ex_defs)
  from pl have ne: "getPlayableRepresentations s1 (ts_adaptation (cl_trackInfo (ex_closure 0 1))) \<noteq> []"
    by simp
  have r0: "cl_reference (ex_closure 0 1) = 0" by (simp add: ex_defs)
  have srt: "sort_key bitrate [exR1, exR2, exR3] = [exR2, exR3, exR1]" by (simp add: ex_defs)
  from unlock_restores_playable_ids [OF subs lk ne nf, of "trigger (Suc 0)"]
  have "\<exists>s'. lock_setValue (trigger (Suc 0)) 1 None s1 = Some s' \<and>
         sr_value (references s' 0) =
           \<lparr>rc_representations = [exR2, exR3, exR1], rc_switchingMode = ''lazy''\<rparr>"
    unfolding pl r0 held srt by auto
  then have inner: "\<exists>s'. lock_setValue (trigger (Suc 0)) 1 None s1 = Some s' \<and>
         sr_value (references s' 0) =
           \<lparr>rc_representations = [exR2, exR3, exR1], rc_switchingMode = ''lazy''\<rparr>" .
  show ?thesis
    by (rule exI [of _ s1]) (intro conjI s1 subs lk pl nf held inner)
qed

subsection \<open>Disposal\<close>

text \<open>
  Claim C9. \<^verbatim>\<open>dispose\<close> detaches every listener of the dispatcher, cancels the
  canceller and finishes the outward channel, whose value and published values stay as
  they were. Afterwards \<^verbatim>\<open>setValue\<close> on the outward channel changes nothing, and no
  sequence of calls of the dispatcher, lock updates and manifest events, whatever the
  listeners do, changes the outward channel. In a tracked world the cancellation runs the clean-ups
  that take every listener off the manifest and every subscription off the lock
  references; every call keeps a tracked world tracked.
\<close>

theorem dispose_is_final:
  "listeners (dispose s) = [] \<and>
   tc_isCancelled (canceller (dispose s)) \<and>
   sr_finished (adaptationRef (dispose s)) \<and>
   sr_value (adaptationRef (dispose s)) = sr_value (adaptationRef s) \<and>
   sr_published (adaptationRef (dispose s)) = sr_published (adaptationRef s) \<and>
   adaptationRef_setValue v (dispose s) = dispose s \<and>
   (\<forall>n cs s'. run_all (run_call (trigger n)) cs (dispose s) = Some s' \<longrightarrow>
      adaptationRef s' = adaptationRef (dispose s)) \<and>
   (tracked s \<longrightarrow>
      manifestListeners (dispose s) = [] \<and>
      (\<forall>l. lr_subscribers (lockedRefs (dispose s) l) = []) \<and>
      tc_cleanups (canceller (dispose s)) = [] \<and>
      (\<forall>n c s'. run_call (trigger n) c s = Some s' \<longrightarrow> tracked s'))"
proof -
  have fin: "sr_finished (adaptationRef (dispose s))"
    by (simp add: dispose_def Let_def sr_finish_def)
  have step: "adaptationRef t' = adaptationRef (dispose s)"
    if "adaptationRef t = adaptationRef (dispose s)" "run_call (trigger n) c t = Some t'"
    for n c t t'
    by (rule run_call_trigger_inv [where I = "\<lambda>t. adaptationRef t = adaptationRef (dispose s)",
          OF finished_closed [OF fin] that])
  have frozen: "adaptationRef s' = adaptationRef (dispose s)"
    if "run_all (run_call (trigger n)) cs (dispose s) = Some s'" for n cs s'
    by (rule run_all_inv [where I = "\<lambda>t. adaptationRef t = adaptationRef (dispose s)"
          and step = "run_call (trigger n)", OF _ refl that]) (erule (1) step)
  have tr: "tracked s'" if "tracked s" "run_call (trigger n) c s = Some s'" for n c s'
    by (rule run_call_trigger_inv [OF tracked_closed that])
  have cl: "manifestListeners (dispose s) = [] \<and>
      (\<forall>l. lr_subscribers (lockedRefs (dispose s) l) = []) \<and>
      tc_cleanups (canceller (dispose s)) = []" if t: "tracked s"
  proof -
    from t have "tracked (s\<lparr>listeners := []\<rparr>)" by (simp add: tracked_def)
    from tracked_cancel [OF this] show ?thesis by (simp add: dispose_def Let_def)
  qed
  have basic: "listeners (dispose s) = [] \<and>
   tc_isCancelled (canceller (dispose s)) \<and>
   sr_value (adaptationRef (dispose s)) = sr_value (adaptationRef s) \<and>
   sr_published (adaptationRef (dispose s)) = sr_published (adaptationRef s) \<and>
   adaptationRef_setValue v (dispose s) = dispose s"
    by (simp add: dispose_def Let_def sr_finish_def adaptationRef_setValue_def sr_setValue_def
        canceller_cancel_def)
  from basic fin frozen tr cl show ?thesis by blast
qed

theorem dispose_is_final_witness:
  "tracked ex_world \<and>
   (\<exists>s1. run_call (trigger (Suc 0)) (CallStart (Some (ex_setting 0 0))) ex_world = Some s1 \<and>
      tracked s1 \<and>
      map fst (manifestListeners s1) = [DecipherabilityUpdate, ManifestUpdate] \<and>
      lr_subscribers (lockedRefs s1 0) = [ex_closure 0 0] \<and>
      manifestListeners (dispose s1) = [] \<and>
      lr_subscribers (lockedRefs (dispose s1) 0) = [] \<and>
      sr_finished (adaptationRef (dispose s1)) \<and>
      sr_value (adaptationRef (dispose s1)) =
        Val \<lparr>ac_adaptation = 0, ac_switchingMode = ''seamless'', ac_representations = 0,
             ac_relativeResumingPosition = None\<rparr> \<and>
      (\<exists>s'. run_call (trigger (Suc 0)) (CallUpdateTrack (Some (ex_setting 0 1))) (dispose s1) = Some s' \<and>
         adaptationRef s' = adaptationRef (dispose s1)))"
proof -
  have t0: "tracked ex_world" by (simp add: tracked_def ex_defs)
  have "\<exists>s1. run_call (trigger (Suc 0)) (CallStart (Some (ex_setting 0 0))) ex_world = Some s1 \<and>
      map fst (manifestListeners s1) = [DecipherabilityUpdate, ManifestUpdate] \<and>
      lr_subscribers (lockedRefs s1 0) = [ex_closure 0 0] \<and>
      sr_value (adaptationRef s1) =
        Val \<lparr>ac_adaptation = 0, ac_switchingMode = ''seamless'', ac_representations = 0,
             ac_relativeResumingPosition = None\<rparr> \<and>
      playableRepresentations \<lparr>cl_trackInfo = ex_setting 0 1, cl_reference = 0\<rparr> s1 = [exR2]"
    by (simp add: ex_defs run_defs)
  then obtain s1 where run1: "run_call (trigger (Suc 0)) (CallStart (Some (ex_setting 0 0))) ex_world = Some s1"
    and ml: "map fst (manifestListeners s1) = [DecipherabilityUpdate, ManifestUpdate]"
    and subs: "lr_subscribers (lockedRefs s1 0) = [ex_closure 0 0]"
    and val: "sr_value (adaptationRef s1) =
        Val \<lparr>ac_adaptation = 0, ac_switchingMode = ''seamless'', ac_representations = 0,
             ac_relativeResumingPosition = None\<rparr>"
    and pl: "playableRepresentations \<lparr>cl_trackInfo = ex_setting 0 1, cl_reference = 0\<rparr> s1 = [exR2]"
    by (elim exE conjE)
  have "playableRepresentations \<lparr>cl_trackInfo = ex_setting 0 1, cl_reference = 0\<rparr> (dispose s1) =
      playableRepresentations \<lparr>cl_trackInfo = ex_setting 0 1, cl_reference = 0\<rparr> s1"
    by (rule playableRepresentations_eq) (simp_all add: dispose_def Let_def)
  with pl have "case Some (ex_setting 0 1) of None \<Rightarrow> lastEmitted (dispose s1) \<noteq> Null
      | Some b \<Rightarrow> playableRepresentations \<lparr>cl_trackInfo = b, cl_reference = 0\<rparr> (dispose s1) \<noteq> []"
    by simp
  from updateTrack_commits [OF this, of "trigger (Suc 0)"]
  have again: "\<exists>s'. run_call (trigger (Suc 0)) (CallUpdateTrack (Some (ex_setting 0 1))) (dispose s1) = Some s'"
    by auto
  note c9a = dispose_is_final [of ex_world Null]
  note c9b = dispose_is_final [of s1 Null]
  note rest = conjunct2 [THEN conjunct2, THEN conjunct2, THEN conjunct2, THEN conjunct2,
      THEN conjunct2]
  note a8 = c9a [THEN rest, THEN conjunct2, THEN mp, OF t0]
  from a8 [THEN conjunct2, THEN conjunct2, THEN conjunct2, THEN spec, THEN spec, THEN spec,
      THEN mp, OF run1]
  have t1: "tracked s1" .
  note b8 = c9b [THEN rest, THEN conjunct2, THEN mp, OF t1]
  have d: "manifestListeners (dispose s1) = []"
    "lr_subscribers (lockedRefs (dispose s1) 0) = []"
    "sr_finished (adaptationRef (dispose s1))"
    "sr_value (adaptationRef (dispose s1)) = sr_value (adaptationRef s1)"
    by (rule b8 [THEN conjunct1], rule b8 [THEN conjunct2, THEN conjunct1, THEN spec],
        rule c9b [THEN conjunct2, THEN conjunct2, THEN conjunct1],
        rule c9b [THEN conjunct2, THEN conjunct2, THEN conjunct2, THEN conjunct1])
  from again obtain s' where
    run2: "run_call (trigger (Suc 0)) (CallUpdateTrack (Some (ex_setting 0 1))) (dispose s1) = Some s'"
    by (rule exE)
  from run2 have "run_all (run_call (trigger (Suc 0))) [CallUpdateTrack (Some (ex_setting 0 1))]
      (dispose s1) = Some s'"
    by simp
  from c9b [THEN rest, THEN conjunct1, THEN spec, THEN spec, THEN spec, THEN mp, OF this]
  have "adaptationRef s' = adaptationRef (dispose s1)" .
  with run2 have inner: "\<exists>s'. run_call (trigger (Suc 0)) (CallUpdateTrack (Some (ex_setting 0 1)))
      (dispose s1) = Some s' \<and> adaptationRef s' = adaptationRef (dispose s1)"
    by blast
  have v: "sr_value (adaptationRef (dispose s1)) =
        Val \<lparr>ac_adaptation = 0, ac_switchingMode = ''seamless'', ac_representations = 0,
             ac_relativeResumingPosition = None\<rparr>"
    using d(4) val by simp
  have "\<exists>s1. run_call (trigger (Suc 0)) (CallStart (Some (ex_setting 0 0))) ex_world = Some s1 \<and>
      tracked s1 \<and>
      map fst (manifestListeners s1) = [DecipherabilityUpdate, ManifestUpdate] \<and>
      lr_subscribers (lockedRefs s1 0) = [ex_closure 0 0] \<and>
      manifestListeners (dispose s1) = [] \<and>
      lr_subscribers (lockedRefs (dispose s1) 0) = [] \<and>
      sr_finished (adaptationRef (dispose s1)) \<and>
      sr_value (adaptationRef (dispose s1)) =
        Val \<lparr>ac_adaptation = 0, ac_switchingMode = ''seamless'', ac_representations = 0,
             ac_relativeResumingPosition = None\<rparr> \<and>
      (\<exists>s'. run_call (trigger (Suc 0)) (CallUpdateTrack (Some (ex_setting 0 1))) (dispose s1) = Some s' \<and>
         adaptationRef s' = adaptationRef (dispose s1))"
    by (rule exI [of _ s1]) (intro conjI run1 t1 ml subs d(1) d(2) d(3) v inner)
  with t0 show ?thesis by (rule conjI)
qed

subsection \<open>The initial value of a sub-channel with no candidate\<close>

text \<open>
  Claim C10, as stated, fails when a listener of the warning event calls back. Below,
  \<^verbatim>\<open>start\<close> is called on the example world with the Adaptation 0 and the lock reference
  2, whose one Representation is not playable, so that the construction sends
  \<^verbatim>\<open>noPlayableLockedRepresentation\<close>:
  \<^item> when the listener unlocks (it sets the lock reference 2 to null), the closure just
    subscribed recomputes and publishes the three playable Representations: the
    sub-channel that \<^verbatim>\<open>start\<close> commits does not hold its initial value;
  \<^item> when the listener calls \<^verbatim>\<open>updateTrack\<close> with the Adaptation 2, that call commits and
    resets the update token, and \<^verbatim>\<open>start\<close> returns at line 108: the setting with no
    candidate is never committed;
  \<^item> when the listener calls \<^verbatim>\<open>dispose\<close>, the outward channel is finished before
    \<^verbatim>\<open>start\<close> commits, and receives nothing.
\<close>

theorem warning_listener_changes_the_commit:
  "map_option outward_view
     (start (trigger (Suc (Suc 0))) (Some (ex_setting 0 2))
        (ex_listening NoPlayableLockedRepresentation [CallLockSetValue 2 None])) =
   Some (Val \<lparr>ac_adaptation = 0, ac_switchingMode = ''seamless'', ac_representations = 0,
              ac_relativeResumingPosition = None\<rparr>,
         [Val \<lparr>ac_adaptation = 0, ac_switchingMode = ''seamless'', ac_representations = 0,
               ac_relativeResumingPosition = None\<rparr>],
         [NoPlayableLockedRepresentation]) \<and>
   map_option (subchannel_view 0 0)
     (start (trigger (Suc (Suc 0))) (Some (ex_setting 0 2))
        (ex_listening NoPlayableLockedRepresentation [CallLockSetValue 2 None])) =
   Some (True, [NoPlayableLockedRepresentation],
         \<lparr>rc_representations = [exR2, exR3, exR1], rc_switchingMode = ''lazy''\<rparr>,
         [\<lparr>rc_representations = [exR2, exR3, exR1], rc_switchingMode = ''lazy''\<rparr>]) \<and>
   map_option outward_view
     (start (trigger (Suc (Suc 0))) (Some (ex_setting 0 2))
        (ex_listening NoPlayableLockedRepresentation [CallUpdateTrack (Some (ex_setting 2 0))])) =
   Some (Val \<lparr>ac_adaptation = 2, ac_switchingMode = ''seamless'', ac_representations = 1,
              ac_relativeResumingPosition = Some 7\<rparr>,
         [Val \<lparr>ac_adaptation = 2, ac_switchingMode = ''seamless'', ac_representations = 1,
               ac_relativeResumingPosition = Some 7\<rparr>],
         [NoPlayableLockedRepresentation]) \<and>
   map_option outward_view
     (start (trigger (Suc (Suc 0))) (Some (ex_setting 0 2))
        (ex_listening NoPlayableLockedRepresentation [CallDispose])) =
   Some (Undefined, [], [NoPlayableLockedRepresentation])"
  by (intro conjI; code_simp)

text \<open>
  Claim C10, amended. Let the candidate set of a track setting be empty at the
  construction of its sub-channel, and let the listeners of the warning event that is
  then sent make no call on the dispatcher, on a lock reference or on the manifest (so
  in particular when there is none). Then \<^verbatim>\<open>start\<close> and \<^verbatim>\<open>updateTrack\<close> return and
  commit the setting: the snapshot is written and \<^verbatim>\<open>setValue\<close> is called on the outward
  channel, which then holds the committed value unless it was finished. The committed
  value points to the new sub-channel, whose value is still the initial
  \<^verbatim>\<open>{representations: [], switchingMode: "lazy"}\<close> and on which nothing was published.
  (A listener that makes the manifest send an update does not return, lemma
  \<open>manifest_listener_never_returns\<close>.)
\<close>

theorem empty_initial_value_is_committed:
  fixes ti s
  defines "ev \<equiv> (case lr_value (lockedRefs s (ts_lockedRepresentations ti)) of
                    None \<Rightarrow> NoPlayableRepresentation
                  | Some repSettings \<Rightarrow> NoPlayableLockedRepresentation)"
    and "snapshot \<equiv> Val \<lparr>le_adaptation = ts_adaptation ti, le_switchingMode = ts_switchingMode ti,
                          le_lockedRepresentations = None\<rparr>"
    and "started \<equiv> Val \<lparr>ac_adaptation = ts_adaptation ti, ac_switchingMode = ts_switchingMode ti,
                         ac_representations = nextReference s, ac_relativeResumingPosition = None\<rparr>"
    and "updated \<equiv> Val \<lparr>ac_adaptation = ts_adaptation ti, ac_switchingMode = ts_switchingMode ti,
                         ac_representations = nextReference s,
                         ac_relativeResumingPosition = ts_relativeResumingPosition ti\<rparr>"
  assumes empty: "playableRepresentations \<lparr>cl_trackInfo = ti, cl_reference = nextReference s\<rparr> s = []"
    and quiet: "\<forall>p \<in> set (listeners s). fst p = ev \<longrightarrow> snd p = []"
  shows "(\<exists>s'. start (trigger (Suc n)) (Some ti) s = Some s' \<and>
            adaptationRef s' = sr_setValue started (adaptationRef s) \<and>
            (\<not> sr_finished (adaptationRef s) \<longrightarrow>
               sr_value (adaptationRef s') = started \<and>
               sr_published (adaptationRef s') = sr_published (adaptationRef s) @ [started]) \<and>
            lastEmitted s' = snapshot \<and>
            sr_value (references s' (nextReference s)) =
              \<lparr>rc_representations = [], rc_switchingMode = ''lazy''\<rparr> \<and>
            sr_published (references s' (nextReference s)) = [] \<and>
            emitted s' = emitted s @ [ev]) \<and>
         (\<exists>s'. updateTrack (trigger (Suc n)) (Some ti) s = Some s' \<and>
            adaptationRef s' = sr_setValue updated (adaptationRef s) \<and>
            (\<not> sr_finished (adaptationRef s) \<longrightarrow>
               sr_value (adaptationRef s') = updated \<and>
               sr_published (adaptationRef s') = sr_published (adaptationRef s) @ [updated]) \<and>
            lastEmitted s' = snapshot \<and>
            sr_value (references s' (nextReference s)) =
              \<lparr>rc_representations = [], rc_switchingMode = ''lazy''\<rparr> \<and>
            sr_published (references s' (nextReference s)) = [] \<and>
            emitted s' = emitted s @ [ev])"
proof -
  let ?s1 = "s\<lparr>updateToken := True\<rparr>"
  let ?s2 = "(canceller_cancel (s\<lparr>updateToken := True\<rparr>))\<lparr>canceller := new_TaskCanceller\<rparr>"
  have e1: "playableRepresentations \<lparr>cl_trackInfo = ti, cl_reference = nextReference ?s1\<rparr> ?s1 = []"
    using empty by (simp add: playableRepresentations_eq [of ?s1 _ s])
  have q1: "\<forall>p \<in> set (listeners ?s1).
      fst p = (case lr_value (lockedRefs ?s1 (ts_lockedRepresentations ti)) of
                 None \<Rightarrow> NoPlayableRepresentation
               | Some repSettings \<Rightarrow> NoPlayableLockedRepresentation) \<longrightarrow> snd p = []"
    using quiet by (simp add: ev_def)
  have e2: "playableRepresentations \<lparr>cl_trackInfo = ti, cl_reference = nextReference ?s2\<rparr> ?s2 = []"
    using empty by (simp add: playableRepresentations_eq [of ?s2 _ s])
  have q2: "\<forall>p \<in> set (listeners ?s2).
      fst p = (case lr_value (lockedRefs ?s2 (ts_lockedRepresentations ti)) of
                 None \<Rightarrow> NoPlayableRepresentation
               | Some repSettings \<Rightarrow> NoPlayableLockedRepresentation) \<longrightarrow> snd p = []"
    using quiet by (simp add: ev_def)
  from construct_empty_quiet [OF e1 q1, of n] obtain s' where
    c1: "constructLockedRepresentationsReference (trigger (Suc n)) ti ?s1 = Some (nextReference s, s')"
    and f1: "references s' (nextReference s) =
             new_reference \<lparr>rc_representations = [], rc_switchingMode = ''lazy''\<rparr>"
      "emitted s' = emitted s @ [ev]" "updateToken s'" "adaptationRef s' = adaptationRef s"
    by (auto simp: ev_def)
  from construct_empty_quiet [OF e2 q2, of n] obtain s'' where
    c2: "constructLockedRepresentationsReference (trigger (Suc n)) ti ?s2 = Some (nextReference s, s'')"
    and f2: "references s'' (nextReference s) =
             new_reference \<lparr>rc_representations = [], rc_switchingMode = ''lazy''\<rparr>"
      "emitted s'' = emitted s @ [ev]" "updateToken s''" "adaptationRef s'' = adaptationRef s"
    by (auto simp: ev_def)
  have by_start: "\<exists>s'. start (trigger (Suc n)) (Some ti) s = Some s' \<and>
            adaptationRef s' = sr_setValue started (adaptationRef s) \<and>
            (\<not> sr_finished (adaptationRef s) \<longrightarrow>
               sr_value (adaptationRef s') = started \<and>
               sr_published (adaptationRef s') = sr_published (adaptationRef s) @ [started]) \<and>
            lastEmitted s' = snapshot \<and>
            sr_value (references s' (nextReference s)) =
              \<lparr>rc_representations = [], rc_switchingMode = ''lazy''\<rparr> \<and>
            sr_published (references s' (nextReference s)) = [] \<and>
            emitted s' = emitted s @ [ev]"
    using c1 f1
    by (simp add: start_def Let_def adaptationRef_setValue_def sr_setValue_def new_reference_def
        started_def snapshot_def)
  have by_updateTrack: "\<exists>s'. updateTrack (trigger (Suc n)) (Some ti) s = Some s' \<and>
            adaptationRef s' = sr_setValue updated (adaptationRef s) \<and>
            (\<not> sr_finished (adaptationRef s) \<longrightarrow>
               sr_value (adaptationRef s') = updated \<and>
               sr_published (adaptationRef s') = sr_published (adaptationRef s) @ [updated]) \<and>
            lastEmitted s' = snapshot \<and>
            sr_value (references s' (nextReference s)) =
              \<lparr>rc_representations = [], rc_switchingMode = ''lazy''\<rparr> \<and>
            sr_published (references s' (nextReference s)) = [] \<and>
            emitted s' = emitted s @ [ev]"
    using c2 f2
    by (simp add: updateTrack_def Let_def adaptationRef_setValue_def sr_setValue_def new_reference_def
        updated_def snapshot_def)
  from by_start by_updateTrack show ?thesis by (rule conjI)
qed

theorem empty_initial_value_is_committed_witness:
  "playableRepresentations
      \<lparr>cl_trackInfo = ex_setting 0 2,
         cl_reference = nextReference
           (addEventListener NoPlayableRepresentation [CallUpdateTrack None]
              (ex_listening NoPlayableLockedRepresentation []))\<rparr>
      (addEventListener NoPlayableRepresentation [CallUpdateTrack None]
         (ex_listening NoPlayableLockedRepresentation [])) = [] \<and>
   lr_value (lockedRefs
      (addEventListener NoPlayableRepresentation [CallUpdateTrack None]
         (ex_listening NoPlayableLockedRepresentation []))
      (ts_lockedRepresentations (ex_setting 0 2))) =
      Some \<lparr>rc_representations = [exR4], rc_switchingMode = ''seamless''\<rparr> \<and>
   listeners
      (addEventListener NoPlayableRepresentation [CallUpdateTrack None]
         (ex_listening NoPlayableLockedRepresentation [])) =
      [(NoPlayableLockedRepresentation, []), (NoPlayableRepresentation, [CallUpdateTrack None])] \<and>
   \<not> sr_finished (adaptationRef
      (addEventListener NoPlayableRepresentation [CallUpdateTrack None]
         (ex_listening NoPlayableLockedRepresentation []))) \<and>
   (\<exists>s'. start (trigger (Suc 0)) (Some (ex_setting 0 2))
            (addEventListener NoPlayableRepresentation [CallUpdateTrack None]
               (ex_listening NoPlayableLockedRepresentation [])) = Some s' \<and>
      sr_value (adaptationRef s') =
        Val \<lparr>ac_adaptation = 0, ac_switchingMode = ''seamless'', ac_representations = 0,
             ac_relativeResumingPosition = None\<rparr> \<and>
      sr_published (adaptationRef s') =
        [Val \<lparr>ac_adaptation = 0, ac_switchingMode = ''seamless'', ac_representations = 0,
             ac_relativeResumingPosition = None\<rparr>] \<and>
      sr_value (references s' 0) = \<lparr>rc_representations = [], rc_switchingMode = ''lazy''\<rparr> \<and>
      sr_published (references s' 0) = [] \<and>
      emitted s' = [NoPlayableLockedRepresentation])"
proof -
  let ?w = "addEventListener NoPlayableRepresentation [CallUpdateTrack None]
      (ex_listening NoPlayableLockedRepresentation [])"
  note w_defs = ex_listening_def addEventListener_def ex_defs
  have h1: "playableRepresentations
      \<lparr>cl_trackInfo = ex_setting 0 2, cl_reference = nextReference ?w\<rparr> ?w = []"
    by (simp add: w_defs run_defs)
  have lk: "lr_value (lockedRefs ?w (ts_lockedRepresentations (ex_setting 0 2))) =
      Some \<lparr>rc_representations = [exR4], rc_switchingMode = ''seamless''\<rparr>"
    by (simp add: w_defs)
  have ls: "listeners ?w =
      [(NoPlayableLockedRepresentation, []), (NoPlayableRepresentation, [CallUpdateTrack None])]"
    by (simp add: w_defs)
  have h2: "\<forall>p \<in> set (listeners ?w).
      fst p = (case lr_value (lockedRefs ?w (ts_lockedRepresentations (ex_setting 0 2))) of
                 None \<Rightarrow> NoPlayableRepresentation
               | Some repSettings \<Rightarrow> NoPlayableLockedRepresentation) \<longrightarrow> snd p = []"
    unfolding ls lk by simp
  have h3: "\<not> sr_finished (adaptationRef ?w)" by (simp add: w_defs)
  have vals: "nextReference ?w = 0" "emitted ?w = []" "sr_published (adaptationRef ?w) = []"
    "ts_adaptation (ex_setting 0 2) = 0" "ts_switchingMode (ex_setting 0 2) = ''seamless''"
    by (simp_all add: w_defs)
  from empty_initial_value_is_committed [OF h1 h2, of 0] h3
  have "\<exists>s'. start (trigger (Suc 0)) (Some (ex_setting 0 2)) ?w = Some s' \<and>
      sr_value (adaptationRef s') =
        Val \<lparr>ac_adaptation = 0, ac_switchingMode = ''seamless'', ac_representations = 0,
             ac_relativeResumingPosition = None\<rparr> \<and>
      sr_published (adaptationRef s') =
        [Val \<lparr>ac_adaptation = 0, ac_switchingMode = ''seamless'', ac_representations = 0,
             ac_relativeResumingPosition = None\<rparr>] \<and>
      sr_value (references s' 0) = \<lparr>rc_representations = [], rc_switchingMode = ''lazy''\<rparr> \<and>
      sr_published (references s' 0) = [] \<and>
      emitted s' = [NoPlayableLockedRepresentation]"
    unfolding vals lk by auto
  with h1 lk ls h3 show ?thesis by (intro conjI)
qed

end
